theory Spec2Isabelle
  imports Complex_Main "HOL-Library.Sublist"
begin

section \<open>JavaScript strings\<close>

text \<open>
  A JavaScript string is a sequence of UTF-16 code units; \<open>length\<close> counts code units,
  as \<open>String.prototype.length\<close> does. \<open>ascii\<close> writes a literal whose characters are
  all ASCII.
\<close>

type_synonym jsstring = "nat list"

definition ascii :: "string \<Rightarrow> jsstring" where
  "ascii s = map of_char s"

text \<open>
  The characters matched by \<open>\s\<close> in a regular expression and removed by
  \<open>String.prototype.trim\<close>: ECMAScript's WhiteSpace and LineTerminator code points.
\<close>

definition is_space :: "nat \<Rightarrow> bool" where
  "is_space c \<longleftrightarrow>
     (9 \<le> c \<and> c \<le> 13) \<or> c = 32 \<or> c = 160 \<or> c = 5760 \<or> (8192 \<le> c \<and> c \<le> 8202)
     \<or> c = 8232 \<or> c = 8233 \<or> c = 8239 \<or> c = 8287 \<or> c = 12288 \<or> c = 65279"

definition trim :: "jsstring \<Rightarrow> jsstring" where
  "trim s = rev (dropWhile is_space (rev (dropWhile is_space s)))"

text \<open>
  \<open>slice(start, end)\<close> on integer arguments: a negative index counts from the end, and
  both indices are clamped to the length.
\<close>

definition rel_index :: "int \<Rightarrow> nat \<Rightarrow> nat" where
  "rel_index i len = (if i < 0 then nat (max (int len + i) 0) else min (nat i) len)"

definition js_slice :: "'a list \<Rightarrow> int \<Rightarrow> int \<Rightarrow> 'a list" where
  "js_slice xs s e =
     (let from = rel_index s (length xs); to = rel_index e (length xs)
      in take (to - from) (drop from xs))"

section \<open>Corpus indexer: chunking (scripts/embed.mjs, chunkText)\<close>

text \<open>
  \<open>size\<close> and \<open>overlap\<close> are the integers \<open>parseInt\<close> returns. The \<open>while\<close> loop need
  not end (with \<open>overlap \<ge> size\<close> the start never advances), so the loop is a partial
  function: \<open>None\<close> is a run that does not return.
\<close>

partial_function (option) chunk_loop ::
  "jsstring \<Rightarrow> int \<Rightarrow> int \<Rightarrow> int \<Rightarrow> jsstring list \<Rightarrow> jsstring list option" where
  "chunk_loop text sz overlap start chunks =
     (if start < int (length text) then
        (let end = min (start + sz) (int (length text));
             chunk = trim (js_slice text start end);
             chunks' = (if chunk \<noteq> [] then chunks @ [chunk] else chunks)
         in if end = int (length text) then Some chunks'
            else chunk_loop text sz overlap (max 0 (end - overlap)) chunks')
      else Some chunks)"

definition chunkText :: "jsstring \<Rightarrow> int \<Rightarrow> int \<Rightarrow> jsstring list option" where
  "chunkText text sz overlap = chunk_loop text sz overlap 0 []"

text \<open>
  The sliding windows as the specification words them: from offset 0, the window
  \<open>text[start : start + size]\<close>, advancing \<open>start\<close> by \<open>size - overlap\<close>, the last window
  being the one that reaches the end of the text. An empty text has no window.
\<close>

function window_starts :: "nat \<Rightarrow> nat \<Rightarrow> nat \<Rightarrow> nat \<Rightarrow> nat list" where
  "window_starts len sz step start =
     (if step = 0 \<or> len \<le> start + sz then [start]
      else start # window_starts len sz step (start + step))"
  by pat_completeness auto
termination
  by (relation "measure (\<lambda>(len, sz, step, start). len - start)") auto

declare window_starts.simps [simp del]

definition spec_windows :: "jsstring \<Rightarrow> nat \<Rightarrow> nat \<Rightarrow> jsstring list" where
  "spec_windows text sz overlap =
     (if text = [] then []
      else map (\<lambda>start. take sz (drop start text))
             (window_starts (length text) sz (sz - overlap) 0))"

text \<open>
  How windows that overlap by \<open>overlap\<close> code units are put together again: the first
  window, then every later window without its first \<open>overlap\<close> code units.
\<close>

definition rebuild :: "nat \<Rightarrow> jsstring list \<Rightarrow> jsstring" where
  "rebuild overlap ws =
     (case ws of [] \<Rightarrow> [] | w # rest \<Rightarrow> w @ concat (map (drop overlap) rest))"

section \<open>Text normalizer (server.mjs and scripts/embed.mjs, cleanForEmbedding)\<close>

text \<open>
  \<open>String.prototype.toLowerCase\<close>. On ASCII it maps A-Z to a-z and leaves the rest.
  The case table of the runtime for the code units from 128 on is not part of the
  repository: it is the parameter \<open>ext\<close>, which gives the code units a code unit is
  replaced by.
\<close>

definition lower_unit :: "(nat \<Rightarrow> nat list) \<Rightarrow> nat \<Rightarrow> nat list" where
  "lower_unit ext c =
     (if 65 \<le> c \<and> c \<le> 90 then [c + 32] else if c < 128 then [c] else ext c)"

definition toLowerCase :: "(nat \<Rightarrow> nat list) \<Rightarrow> jsstring \<Rightarrow> jsstring" where
  "toLowerCase ext s = concat (map (lower_unit ext) s)"

text \<open>The Devanagari block \<open>\u0900-\u097F\<close>, and what Unicode says of its case: it has none.\<close>

definition is_devanagari :: "nat \<Rightarrow> bool" where
  "is_devanagari c \<longleftrightarrow> 2304 \<le> c \<and> c \<le> 2431"

definition caseless_devanagari :: "(nat \<Rightarrow> nat list) \<Rightarrow> bool" where
  "caseless_devanagari ext \<longleftrightarrow> list_all (\<lambda>c. ext c = [c]) [2304 ..< 2432]"

text \<open>The character class \<open>[a-z0-9]\<close>.\<close>

definition is_lower_alnum :: "nat \<Rightarrow> bool" where
  "is_lower_alnum c \<longleftrightarrow> (97 \<le> c \<and> c \<le> 122) \<or> (48 \<le> c \<and> c \<le> 57)"

text \<open>The code units a token is made of: \<open>[a-z0-9]\<close> and the Devanagari block.\<close>

definition is_word_unit :: "nat \<Rightarrow> bool" where
  "is_word_unit c \<longleftrightarrow> is_lower_alnum c \<or> is_devanagari c"

text \<open>\<open>lower.replace(/[^a-z0-9\u0900-\u097F\s]/g, " ")\<close>\<close>

definition strip_unit :: "nat \<Rightarrow> nat" where
  "strip_unit c = (if is_lower_alnum c \<or> is_devanagari c \<or> is_space c then c else 32)"

definition stripped :: "jsstring \<Rightarrow> jsstring" where
  "stripped lower = map strip_unit lower"

text \<open>
  \<open>split(/\s+/)\<close>: the string is cut at every maximal run of whitespace; a run at the
  start or at the end leaves an empty string there, and the empty string splits into
  one empty string. \<open>cur\<close> is the piece being read.
\<close>

function split_ws :: "jsstring \<Rightarrow> jsstring \<Rightarrow> jsstring list" where
  "split_ws cur [] = [cur]"
| "split_ws cur (c # cs) =
     (if is_space c then cur # split_ws [] (dropWhile is_space cs)
      else split_ws (cur @ [c]) cs)"
  by pat_completeness auto
termination
  by (relation "measure (\<lambda>(cur, s). length s)")
     (auto simp: less_Suc_eq_le length_dropWhile_le)

text \<open>\<open>Array.prototype.join\<close> on an array of strings.\<close>

fun join :: "jsstring \<Rightarrow> jsstring list \<Rightarrow> jsstring" where
  "join sep [] = []"
| "join sep [x] = x"
| "join sep (x # y # ys) = x @ sep @ join sep (y # ys)"

definition EN_STOPWORDS :: "jsstring list" where
  "EN_STOPWORDS =
   [ascii ''a'', ascii ''about'', ascii ''above'', ascii ''after'', ascii ''again'',
    ascii ''against'', ascii ''all'', ascii ''am'', ascii ''an'', ascii ''and'', ascii ''any'',
    ascii ''are'', ascii ''aren'' @ [39] @ ascii ''t'', ascii ''as'', ascii ''at'',
    ascii ''be'', ascii ''because'', ascii ''been'', ascii ''before'', ascii ''being'',
    ascii ''below'', ascii ''between'', ascii ''both'', ascii ''but'', ascii ''by'',
    ascii ''can'' @ [39] @ ascii ''t'', ascii ''cannot'', ascii ''could'',
    ascii ''couldn'' @ [39] @ ascii ''t'', ascii ''did'', ascii ''didn'' @ [39] @ ascii ''t'',
    ascii ''do'', ascii ''does'', ascii ''doesn'' @ [39] @ ascii ''t'', ascii ''doing'',
    ascii ''don'' @ [39] @ ascii ''t'', ascii ''down'', ascii ''during'', ascii ''each'',
    ascii ''few'', ascii ''for'', ascii ''from'', ascii ''further'', ascii ''had'',
    ascii ''hadn'' @ [39] @ ascii ''t'', ascii ''has'', ascii ''hasn'' @ [39] @ ascii ''t'',
    ascii ''have'', ascii ''haven'' @ [39] @ ascii ''t'', ascii ''having'', ascii ''he'',
    ascii ''he'' @ [39] @ ascii ''d'', ascii ''he'' @ [39] @ ascii ''ll'',
    ascii ''he'' @ [39] @ ascii ''s'', ascii ''her'', ascii ''here'',
    ascii ''here'' @ [39] @ ascii ''s'', ascii ''hers'', ascii ''herself'', ascii ''him'',
    ascii ''himself'', ascii ''his'', ascii ''how'', ascii ''how'' @ [39] @ ascii ''s'',
    ascii ''i'', ascii ''i'' @ [39] @ ascii ''d'', ascii ''i'' @ [39] @ ascii ''ll'',
    ascii ''i'' @ [39] @ ascii ''m'', ascii ''i'' @ [39] @ ascii ''ve'', ascii ''if'',
    ascii ''in'', ascii ''into'', ascii ''is'', ascii ''isn'' @ [39] @ ascii ''t'',
    ascii ''it'', ascii ''it'' @ [39] @ ascii ''s'', ascii ''its'', ascii ''itself'',
    ascii ''let'' @ [39] @ ascii ''s'', ascii ''me'', ascii ''more'', ascii ''most'',
    ascii ''mustn'' @ [39] @ ascii ''t'', ascii ''my'', ascii ''myself'', ascii ''no'',
    ascii ''nor'', ascii ''not'', ascii ''of'', ascii ''off'', ascii ''on'', ascii ''once'',
    ascii ''only'', ascii ''or'', ascii ''other'', ascii ''ought'', ascii ''our'',
    ascii ''ours'', ascii ''ourselves'', ascii ''out'', ascii ''over'', ascii ''own'',
    ascii ''same'', ascii ''shan'' @ [39] @ ascii ''t'', ascii ''she'',
    ascii ''she'' @ [39] @ ascii ''d'', ascii ''she'' @ [39] @ ascii ''ll'',
    ascii ''she'' @ [39] @ ascii ''s'', ascii ''should'',
    ascii ''shouldn'' @ [39] @ ascii ''t'', ascii ''so'', ascii ''some'', ascii ''such'',
    ascii ''than'', ascii ''that'', ascii ''that'' @ [39] @ ascii ''s'', ascii ''the'',
    ascii ''their'', ascii ''theirs'', ascii ''them'', ascii ''themselves'', ascii ''then'',
    ascii ''there'', ascii ''there'' @ [39] @ ascii ''s'', ascii ''these'', ascii ''they'',
    ascii ''they'' @ [39] @ ascii ''d'', ascii ''they'' @ [39] @ ascii ''ll'',
    ascii ''they'' @ [39] @ ascii ''re'', ascii ''they'' @ [39] @ ascii ''ve'', ascii ''this'',
    ascii ''those'', ascii ''through'', ascii ''to'', ascii ''too'', ascii ''under'',
    ascii ''until'', ascii ''up'', ascii ''very'', ascii ''was'',
    ascii ''wasn'' @ [39] @ ascii ''t'', ascii ''we'', ascii ''we'' @ [39] @ ascii ''d'',
    ascii ''we'' @ [39] @ ascii ''ll'', ascii ''we'' @ [39] @ ascii ''re'',
    ascii ''we'' @ [39] @ ascii ''ve'', ascii ''were'', ascii ''weren'' @ [39] @ ascii ''t'',
    ascii ''what'', ascii ''what'' @ [39] @ ascii ''s'', ascii ''when'',
    ascii ''when'' @ [39] @ ascii ''s'', ascii ''where'', ascii ''where'' @ [39] @ ascii ''s'',
    ascii ''which'', ascii ''while'', ascii ''who'', ascii ''who'' @ [39] @ ascii ''s'',
    ascii ''whom'', ascii ''why'', ascii ''why'' @ [39] @ ascii ''s'', ascii ''with'',
    ascii ''won'' @ [39] @ ascii ''t'', ascii ''would'', ascii ''wouldn'' @ [39] @ ascii ''t'',
    ascii ''you'', ascii ''you'' @ [39] @ ascii ''d'', ascii ''you'' @ [39] @ ascii ''ll'',
    ascii ''you'' @ [39] @ ascii ''re'', ascii ''you'' @ [39] @ ascii ''ve'', ascii ''your'',
    ascii ''yours'', ascii ''yourself'', ascii ''yourselves'']"

definition HINGLISH_STOPWORDS :: "jsstring list" where
  "HINGLISH_STOPWORDS =
   [ascii ''hai'', ascii ''hain'', ascii ''ho'', ascii ''hona'', ascii ''hoga'', ascii ''hogi'',
    ascii ''honge'', ascii ''hote'', ascii ''hota'', ascii ''thi'', ascii ''tha'',
    ascii ''the'', ascii ''kya'', ascii ''kyu'', ascii ''kyun'', ascii ''kyunki'',
    ascii ''kisi'', ascii ''kis'', ascii ''kaun'', ascii ''konsa'', ascii ''kab'',
    ascii ''kaha'', ascii ''kahaan'', ascii ''kaise'', ascii ''nahi'', ascii ''nahin'',
    ascii ''na'', ascii ''mat'', ascii ''bas'', ascii ''sirf'', ascii ''bhi'', ascii ''hi'',
    ascii ''to'', ascii ''tho'', ascii ''ab'', ascii ''abhi'', ascii ''phir'', ascii ''fir'',
    ascii ''ye'', ascii ''yeh'', ascii ''vo'', ascii ''woh'', ascii ''aisa'', ascii ''waisa'',
    ascii ''jab'', ascii ''tab'', ascii ''agar'', ascii ''lekin'', ascii ''magar'',
    ascii ''par'', ascii ''per'', ascii ''ya'', ascii ''aur'', ascii ''ka'', ascii ''ki'',
    ascii ''ke'', ascii ''mein'', ascii ''me'', ascii ''mai'', ascii ''mei'', ascii ''mujhe'',
    ascii ''mujhko'', ascii ''hume'', ascii ''humko'', ascii ''tumhe'', ascii ''aap'',
    ascii ''ap'', ascii ''hum'', ascii ''tum'', ascii ''se'', ascii ''ko'', ascii ''tak'',
    ascii ''pe'', ascii ''par'', ascii ''liye'', ascii ''ke'', ascii ''liye'', ascii ''kr'',
    ascii ''kar'', ascii ''karo'', ascii ''karna'', ascii ''karke'', ascii ''krke'',
    ascii ''krna'', ascii ''ho gya'', ascii ''hogaya'', ascii ''chahiye'', ascii ''chahie'',
    ascii ''krdo'', ascii ''kardo'', ascii ''de'', ascii ''do'', ascii ''lo'', ascii ''le'',
    ascii ''dena'', ascii ''lena'']"

definition HINDI_STOPWORDS :: "jsstring list" where
  "HINDI_STOPWORDS =
   [[2361, 2376], [2361, 2376, 2306], [2361, 2379], [2361, 2379, 2344, 2366],
    [2361, 2379, 2327, 2366], [2361, 2379, 2327, 2368], [2361, 2379, 2306, 2327, 2375],
    [2361, 2379, 2340, 2375], [2361, 2379, 2340, 2366], [2341, 2366], [2341, 2368],
    [2341, 2375], [2325, 2381, 2351, 2366], [2325, 2381, 2351, 2379, 2306],
    [2325, 2381, 2351, 2379, 2306, 2325, 2367], [2325, 2367, 2360, 2368], [2325, 2380, 2344],
    [2325, 2380, 2344, 2360, 2366], [2325, 2348], [2325, 2361, 2366, 2305],
    [2325, 2376, 2360, 2375], [2344, 2361, 2368, 2306], [2350, 2340], [2348, 2360],
    [2360, 2367, 2352, 2381, 2347], [2349, 2368], [2361, 2368], [2340, 2379], [2309, 2348],
    [2309, 2349, 2368], [2347, 2367, 2352], [2351, 2361], [2351, 2375], [2357, 2361],
    [2357, 2379], [2332, 2348], [2340, 2348], [2309, 2327, 2352],
    [2354, 2375, 2325, 2367, 2344], [2350, 2327, 2352], [2351, 2366], [2324, 2352],
    [2325, 2366], [2325, 2368], [2325, 2375], [2350, 2375, 2306], [2350, 2375],
    [2350, 2369, 2333, 2375], [2361, 2350, 2375, 2306],
    [2340, 2369, 2350, 2381, 2361, 2375, 2306], [2310, 2346], [2361, 2350], [2340, 2369, 2350],
    [2360, 2375], [2325, 2379], [2340, 2325], [2346, 2352], [2354, 2367, 2319],
    [2330, 2366, 2361, 2367, 2319], [2325, 2352], [2325, 2352, 2379], [2325, 2352, 2344, 2366],
    [2325, 2352, 2325, 2375], [2325, 2352] @ ascii '' '' @ [2342, 2375, 2306],
    [2325, 2352] @ ascii '' '' @ [2354, 2379]]"

definition PROTECTED_TOKENS :: "jsstring list" where
  "PROTECTED_TOKENS =
   [ascii ''hca'', ascii ''hari'', ascii ''chand'', ascii ''anand'', ascii ''anil'',
    ascii ''anand'', ascii ''duke'', ascii ''kansai'', ascii ''special'', ascii ''highlead'',
    ascii ''merrow'', ascii ''megasew'', ascii ''amf'', ascii ''reece'', ascii ''delhi'',
    ascii ''india'', ascii ''solution'', ascii ''solutions'', ascii ''automation'',
    ascii ''garment'', ascii ''leather'', ascii ''mattress'']"

text \<open>The callback of \<open>tokens.filter\<close>; \<open>Set.has\<close> is membership.\<close>

definition keep_token :: "jsstring \<Rightarrow> bool" where
  "keep_token t =
     (if t \<in> set PROTECTED_TOKENS then True
      else if t \<in> set EN_STOPWORDS then False
      else if t \<in> set HINGLISH_STOPWORDS then False
      else if t \<in> set HINDI_STOPWORDS then False
      else True)"

definition tokens_of :: "(nat \<Rightarrow> nat list) \<Rightarrow> jsstring \<Rightarrow> jsstring list" where
  "tokens_of ext s = filter (\<lambda>t. t \<noteq> []) (split_ws [] (stripped (toLowerCase ext s)))"

definition kept_tokens :: "(nat \<Rightarrow> nat list) \<Rightarrow> jsstring \<Rightarrow> jsstring list" where
  "kept_tokens ext s = filter keep_token (tokens_of ext s)"

definition cleanForEmbedding :: "(nat \<Rightarrow> nat list) \<Rightarrow> jsstring \<Rightarrow> jsstring" where
  "cleanForEmbedding ext s =
     (if s = [] then [] else trim (join (ascii '' '') (kept_tokens ext s)))"

text \<open>
  The variant of the cleaner whose Hinglish and Hindi stopword sets are without their
  entries of more than one word ("ho gya" in the first, two entries in the second).
\<close>

definition MULTI_WORD_STOPWORDS :: "jsstring list" where
  "MULTI_WORD_STOPWORDS =
   [ascii ''ho gya'', [2325, 2352] @ ascii '' '' @ [2342, 2375, 2306],
    [2325, 2352] @ ascii '' '' @ [2354, 2379]]"

definition keep_token_single :: "jsstring \<Rightarrow> bool" where
  "keep_token_single t =
     (if t \<in> set PROTECTED_TOKENS then True
      else if t \<in> set EN_STOPWORDS then False
      else if t \<in> set HINGLISH_STOPWORDS - set MULTI_WORD_STOPWORDS then False
      else if t \<in> set HINDI_STOPWORDS - set MULTI_WORD_STOPWORDS then False
      else True)"

definition cleanForEmbedding_single :: "(nat \<Rightarrow> nat list) \<Rightarrow> jsstring \<Rightarrow> jsstring" where
  "cleanForEmbedding_single ext s =
     (if s = [] then []
      else trim (join (ascii '' '') (filter keep_token_single (tokens_of ext s))))"

section \<open>Language mode (server.mjs, detectResponseMode)\<close>

datatype mode = English | Hinglish

definition hinglishTokens :: "jsstring list" where
  "hinglishTokens =
   [ascii ''hai'', ascii ''hain'', ascii ''tha'', ascii ''thi'', ascii ''the'', ascii ''kya'',
    ascii ''kyu'', ascii ''kyun'', ascii ''kyunki'', ascii ''kisi'', ascii ''kis'',
    ascii ''kaun'', ascii ''kab'', ascii ''kaha'', ascii ''kahaan'', ascii ''kaise'',
    ascii ''nahi'', ascii ''nahin'', ascii ''ka'', ascii ''ki'', ascii ''ke'', ascii ''mein'',
    ascii ''me'', ascii ''mai'', ascii ''mei'', ascii ''hum'', ascii ''ap'', ascii ''aap'',
    ascii ''tum'', ascii ''kr'', ascii ''kar'', ascii ''karo'', ascii ''karna'',
    ascii ''chahiye'', ascii ''bhi'', ascii ''sirf'', ascii ''jaldi'', ascii ''kitna'',
    ascii ''ho'', ascii ''hoga'', ascii ''hogaya'', ascii ''krdo'', ascii ''pls'',
    ascii ''plz'', ascii ''yaar'', ascii ''shukriya'', ascii ''dhanyavaad'',
    ascii ''dhanyavad'']"

text \<open>
  The test of one marker word in the loop:
  \<open>text.includes(` ${t} `) || text.startsWith(t + " ") || text.endsWith(" " + t) || text === t\<close>.
\<close>

definition marker_hit :: "jsstring \<Rightarrow> jsstring \<Rightarrow> bool" where
  "marker_hit text t \<longleftrightarrow>
     sublist (ascii '' '' @ t @ ascii '' '') text \<or> prefix (t @ ascii '' '') text
     \<or> suffix (ascii '' '' @ t) text \<or> text = t"

text \<open>
  The chat cues \<open>/[:)(!?]{2,}|\.{3,}|...|...|.../g\<close>, the last three alternatives being
  three emoji, each a surrogate pair. Only whether there is a match is used
  (\<open>chatCues >= 1\<close>): two adjacent characters of the class, three dots, or one of the pairs.
\<close>

definition is_cue_punct :: "nat \<Rightarrow> bool" where
  "is_cue_punct c \<longleftrightarrow> c \<in> set (ascii '':)(!?'')"

fun two_cue_puncts :: "jsstring \<Rightarrow> bool" where
  "two_cue_puncts (a # b # cs) \<longleftrightarrow> (is_cue_punct a \<and> is_cue_punct b) \<or> two_cue_puncts (b # cs)"
| "two_cue_puncts _ \<longleftrightarrow> False"

definition has_chat_cue :: "jsstring \<Rightarrow> bool" where
  "has_chat_cue text \<longleftrightarrow>
     two_cue_puncts text \<or> sublist (ascii ''...'') text
     \<or> sublist [55357, 56834] text \<or> sublist [55357, 56397] text \<or> sublist [55357, 56911] text"

definition marker_score :: "jsstring \<Rightarrow> real" where
  "marker_score text =
     fold (\<lambda>t score. if marker_hit text t then score + 1 else score) hinglishTokens 0"

definition detectResponseMode :: "(nat \<Rightarrow> nat list) \<Rightarrow> jsstring \<Rightarrow> mode" where
  "detectResponseMode ext q =
     (let text = toLowerCase ext q in
      if list_ex is_devanagari text then Hinglish
      else let score = marker_score text + (if has_chat_cue text then 1 / 2 else 0)
           in if 2 \<le> score then Hinglish else English)"

text \<open>
  A standalone token in the specification's sense: one of the pieces between
  whitespace; and in the narrower sense of pieces between space characters (U+0020).
\<close>

definition ws_tokens :: "jsstring \<Rightarrow> jsstring list" where
  "ws_tokens text = filter (\<lambda>t. t \<noteq> []) (split_ws [] text)"

fun split_sp :: "jsstring \<Rightarrow> jsstring \<Rightarrow> jsstring list" where
  "split_sp cur [] = [cur]"
| "split_sp cur (c # cs) = (if c = 32 then cur # split_sp [] cs else split_sp (cur @ [c]) cs)"

definition spec_detectMode :: "(jsstring \<Rightarrow> jsstring list) \<Rightarrow> (nat \<Rightarrow> nat list) \<Rightarrow> jsstring \<Rightarrow> mode" where
  "spec_detectMode toks ext q =
     (if list_ex is_devanagari q then Hinglish
      else let text = toLowerCase ext q;
               score = real (length (filter (\<lambda>t. t \<in> set (toks text)) hinglishTokens))
                       + (if has_chat_cue text then 1 / 2 else 0)
           in if 2 \<le> score then Hinglish else English)"

text \<open>
  An occurrence of \<open>t\<close> in the text with a space character or a string edge on each side.
\<close>

definition bounded_occ :: "jsstring \<Rightarrow> jsstring \<Rightarrow> bool" where
  "bounded_occ t text \<longleftrightarrow>
     (\<exists>pre post. text = pre @ t @ post \<and> (pre = [] \<or> last pre = 32)
        \<and> (post = [] \<or> hd post = 32))"

text \<open>
  What Unicode says of the case table and the Devanagari block: lower-casing a code
  unit gives a Devanagari code unit exactly when it is one.
\<close>

definition devanagari_stable :: "(nat \<Rightarrow> nat list) \<Rightarrow> bool" where
  "devanagari_stable ext \<longleftrightarrow> (\<forall>c\<ge>128. list_ex is_devanagari (ext c) = is_devanagari c)"

section \<open>Numbers and cosine similarity (server.mjs)\<close>

text \<open>
  A JavaScript number is an IEEE 754 double: a finite double, which is a real number, one
  of the two infinities, or NaN. The two zeros are one value here: of the operations
  below only the division by a zero tells them apart, and \<open>cosineSim\<close> never divides by
  a zero.
\<close>

datatype double = Fin real | PInf | NInf | NaN

text \<open>
  The floating-point operations \<open>+\<close>, \<open>*\<close>, \<open>/\<close> and \<open>Math.sqrt\<close>. The request handler
  takes them as parameters, so that what is proved of it holds whatever they round to;
  \<open>ieee\<close> below is the arithmetic of IEEE 754.
\<close>

record arith =
  fl_add :: "double \<Rightarrow> double \<Rightarrow> double"
  fl_mul :: "double \<Rightarrow> double \<Rightarrow> double"
  fl_div :: "double \<Rightarrow> double \<Rightarrow> double"
  fl_sqrt :: "double \<Rightarrow> double"

text \<open>The numbers that \<open>||\<close> passes over: the zeros and NaN.\<close>

definition falsy :: "double \<Rightarrow> bool" where
  "falsy d \<longleftrightarrow> d = Fin 0 \<or> d = NaN"

text \<open>
  The body of the loop of \<open>cosineSim\<close>, the loop over the indices below
  \<open>Math.min(a.length, b.length)\<close>, the divisor \<open>Math.sqrt(na) * Math.sqrt(nb) || 1\<close> and
  the result \<open>dot / (Math.sqrt(na) * Math.sqrt(nb) || 1)\<close>.
\<close>

definition cosine_step ::
  "arith \<Rightarrow> double list \<Rightarrow> double list \<Rightarrow> nat \<Rightarrow> double \<times> double \<times> double
     \<Rightarrow> double \<times> double \<times> double" where
  "cosine_step ar a b i acc =
     (case acc of (dot, na, nb) \<Rightarrow>
        (fl_add ar dot (fl_mul ar (a ! i) (b ! i)),
         fl_add ar na (fl_mul ar (a ! i) (a ! i)),
         fl_add ar nb (fl_mul ar (b ! i) (b ! i))))"

definition cosine_sums ::
  "arith \<Rightarrow> double list \<Rightarrow> double list \<Rightarrow> double \<times> double \<times> double" where
  "cosine_sums ar a b =
     fold (cosine_step ar a b) [0 ..< min (length a) (length b)] (Fin 0, Fin 0, Fin 0)"

definition cosine_divisor :: "arith \<Rightarrow> double \<Rightarrow> double \<Rightarrow> double" where
  "cosine_divisor ar na nb =
     (let d = fl_mul ar (fl_sqrt ar na) (fl_sqrt ar nb) in if falsy d then Fin 1 else d)"

definition cosineSim :: "arith \<Rightarrow> double list \<Rightarrow> double list \<Rightarrow> double" where
  "cosineSim ar a b =
     (case cosine_sums ar a b of (dot, na, nb) \<Rightarrow> fl_div ar dot (cosine_divisor ar na nb))"

subsection \<open>IEEE 754 arithmetic: binary64, round to nearest, ties to even\<close>

definition pow2 :: "int \<Rightarrow> real" where
  "pow2 k = (if 0 \<le> k then 2 ^ nat k else 1 / 2 ^ nat (- k))"

text \<open>
  The exponent of \<open>x\<close>: the \<open>k\<close> with \<open>2^k \<le> |x| < 2^(k+1)\<close>, but \<open>-1022\<close> for the
  subnormal numbers and zero, and 1024 from \<open>2^1024\<close> on. The doubles with exponent \<open>k\<close>
  are the multiples of \<open>2^(k-52)\<close>.
\<close>

definition binade :: "real \<Rightarrow> int" where
  "binade x = (case find (\<lambda>k. \<bar>x\<bar> < pow2 (k + 1)) [- 1022 .. 1023] of
                 Some k \<Rightarrow> k | None \<Rightarrow> 1024)"

definition round_even :: "real \<Rightarrow> int" where
  "round_even y =
     (let n = \<lfloor>y\<rfloor>; r = y - of_int n
      in if r < 1 / 2 then n else if 1 / 2 < r then n + 1 else if even n then n else n + 1)"

text \<open>
  The double nearest to a real: the nearest multiple of the spacing at its exponent, and
  an infinity where that is \<open>2^1024\<close> or beyond.
\<close>

definition rnd :: "real \<Rightarrow> double" where
  "rnd x =
     (let u = pow2 (binade x - 52); y = of_int (round_even (x / u)) * u
      in if pow2 1024 \<le> y then PInf else if y \<le> - pow2 1024 then NInf else Fin y)"

fun is_inf :: "double \<Rightarrow> bool" where
  "is_inf PInf \<longleftrightarrow> True"
| "is_inf NInf \<longleftrightarrow> True"
| "is_inf d \<longleftrightarrow> False"

fun is_neg :: "double \<Rightarrow> bool" where
  "is_neg (Fin x) \<longleftrightarrow> x < 0"
| "is_neg NInf \<longleftrightarrow> True"
| "is_neg d \<longleftrightarrow> False"

fun the_fin :: "double \<Rightarrow> real" where
  "the_fin (Fin x) = x"
| "the_fin d = 0"

definition sign_inf :: "bool \<Rightarrow> double" where
  "sign_inf neg = (if neg then NInf else PInf)"

definition ieee_add :: "double \<Rightarrow> double \<Rightarrow> double" where
  "ieee_add a b =
     (case a of
        Fin x \<Rightarrow> (case b of Fin y \<Rightarrow> rnd (x + y) | _ \<Rightarrow> b)
      | _ \<Rightarrow> (case b of Fin y \<Rightarrow> a | _ \<Rightarrow> if a = b then a else NaN))"

definition ieee_mul :: "double \<Rightarrow> double \<Rightarrow> double" where
  "ieee_mul a b =
     (if a = NaN \<or> b = NaN then NaN
      else if is_inf a \<or> is_inf b then
        (if a = Fin 0 \<or> b = Fin 0 then NaN else sign_inf (is_neg a \<noteq> is_neg b))
      else rnd (the_fin a * the_fin b))"

text \<open>A zero divisor is taken as \<open>+0\<close>.\<close>

definition ieee_div :: "double \<Rightarrow> double \<Rightarrow> double" where
  "ieee_div a b =
     (if a = NaN \<or> b = NaN then NaN
      else if is_inf a then (if is_inf b then NaN else sign_inf (is_neg a \<noteq> is_neg b))
      else if is_inf b then Fin 0
      else if b = Fin 0 then (if a = Fin 0 then NaN else sign_inf (is_neg a))
      else rnd (the_fin a / the_fin b))"

fun ieee_sqrt :: "double \<Rightarrow> double" where
  "ieee_sqrt (Fin x) = (if x < 0 then NaN else rnd (sqrt x))"
| "ieee_sqrt PInf = PInf"
| "ieee_sqrt d = NaN"

definition ieee :: arith where
  "ieee = \<lparr>fl_add = ieee_add, fl_mul = ieee_mul, fl_div = ieee_div, fl_sqrt = ieee_sqrt\<rparr>"

subsection \<open>Comparison and the sort by descending score\<close>

text \<open>\<open>a < b\<close> and \<open>a <= b\<close> on numbers: false where one of them is NaN.\<close>

fun js_less :: "double \<Rightarrow> double \<Rightarrow> bool" where
  "js_less (Fin x) (Fin y) \<longleftrightarrow> x < y"
| "js_less a b \<longleftrightarrow> a \<noteq> NaN \<and> b \<noteq> NaN \<and> a \<noteq> b \<and> (a = NInf \<or> b = PInf)"

definition js_le :: "double \<Rightarrow> double \<Rightarrow> bool" where
  "js_le a b \<longleftrightarrow> a \<noteq> NaN \<and> b \<noteq> NaN \<and> \<not> js_less b a"

text \<open>
  \<open>Array.prototype.sort\<close> with the comparator \<open>(a, b) => b.score - a.score\<close>. The
  difference is negative exactly when \<open>b.score < a.score\<close> and positive exactly when
  \<open>a.score < b.score\<close>: a difference of finite doubles has the sign of the exact
  difference, and the difference of two equal infinities is NaN, which the sort reads as
  0. Where no score is NaN the comparator is consistent, and the sort, which is stable,
  gives the list that the insertion sort below computes. Where a score is NaN the order
  is implementation-defined; it is a parameter of the handler.
\<close>

primrec insert_score :: "'a \<times> double \<Rightarrow> ('a \<times> double) list \<Rightarrow> ('a \<times> double) list" where
  "insert_score x [] = [x]"
| "insert_score x (y # ys) =
     (if js_less (snd x) (snd y) then y # insert_score x ys else x # y # ys)"

definition sort_scores :: "('a \<times> double) list \<Rightarrow> ('a \<times> double) list" where
  "sort_scores xs = foldr insert_score xs []"

definition has_nan :: "('a \<times> double) list \<Rightarrow> bool" where
  "has_nan xs \<longleftrightarrow> NaN \<in> snd ` set xs"

section \<open>Requests and JSON values (server.mjs)\<close>

text \<open>
  The values \<open>express.json()\<close> puts into \<open>req.body\<close>. An object is the list of its
  entries in the order of the text; \<open>JSON.parse\<close> keeps the last entry of a key. A
  value that may be \<open>undefined\<close> is a \<open>json option\<close>.
\<close>

datatype json =
    JNull
  | JBool bool
  | JNum real
  | JStr jsstring
  | JArr "json list"
  | JObj "(jsstring \<times> json) list"

definition get_prop :: "json option \<Rightarrow> jsstring \<Rightarrow> json option" where
  "get_prop v k = (case v of Some (JObj kvs) \<Rightarrow> map_of (rev kvs) k | _ \<Rightarrow> None)"

text \<open>Truthiness, \<open>a || b\<close>, and \<open>a ?? b\<close>, which passes over \<open>null\<close> and \<open>undefined\<close> only.\<close>

definition truthy :: "json option \<Rightarrow> bool" where
  "truthy v =
     (case v of
        None \<Rightarrow> False
      | Some JNull \<Rightarrow> False
      | Some (JBool b) \<Rightarrow> b
      | Some (JNum r) \<Rightarrow> r \<noteq> 0
      | Some (JStr s) \<Rightarrow> s \<noteq> []
      | Some (JArr xs) \<Rightarrow> True
      | Some (JObj kvs) \<Rightarrow> True)"

definition js_or :: "json option \<Rightarrow> json option \<Rightarrow> json option" where
  "js_or a b = (if truthy a then a else b)"

definition nullish :: "json option \<Rightarrow> bool" where
  "nullish v \<longleftrightarrow> v = None \<or> v = Some JNull"

definition js_coalesce :: "json option \<Rightarrow> json option \<Rightarrow> json option" where
  "js_coalesce a b = (if nullish a then b else a)"

definition typeof_string :: "json \<Rightarrow> bool" where
  "typeof_string v = (case v of JStr s \<Rightarrow> True | _ \<Rightarrow> False)"

text \<open>
  \<open>value.toString()\<close>; \<open>None\<close> is a TypeError. A number is printed by the runtime
  (\<open>sh\<close>). An array joins the strings of its elements with commas, \<open>null\<close> giving the
  empty string. An object gives \<open>[object Object]\<close>; an entry named \<open>toString\<close> hides
  \<open>Object.prototype.toString\<close> behind a value that cannot be called, which throws.
\<close>

fun to_string :: "(real \<Rightarrow> jsstring) \<Rightarrow> json \<Rightarrow> jsstring option" where
  "to_string sh JNull = None"
| "to_string sh (JBool b) = Some (if b then ascii ''true'' else ascii ''false'')"
| "to_string sh (JNum r) = Some (sh r)"
| "to_string sh (JStr s) = Some s"
| "to_string sh (JArr xs) =
     (let parts = map (\<lambda>x. if x = JNull then Some [] else to_string sh x) xs
      in if None \<in> set parts then None else Some (join (ascii '','') (map the parts)))"
| "to_string sh (JObj kvs) =
     (if ascii ''toString'' \<in> fst ` set kvs then None
      else Some ([91] @ ascii ''object Object'' @ [93]))"

record request =
  header_sid :: "jsstring option"
  body :: "json option"
  cookie_sid :: "json option"

section \<open>Session store (server.mjs, sessionMiddleware, /api/reset, /api/session)\<close>

datatype role = User | Assistant

record turn =
  role :: role
  content :: jsstring
  ts :: nat

record session =
  history :: "turn list"
  createdAt :: nat
  lastSeen :: nat

type_synonym sessions = "jsstring \<rightharpoonup> session"

text \<open>An error object as the \<open>catch\<close> block reads it.\<close>

record js_error =
  err_status :: "nat option"
  err_message :: "jsstring option"
  err_statusText :: "jsstring option"
  err_name :: "jsstring option"

text \<open>An entry of the index, as far as the handler reads it.\<close>

record chunk =
  chunk_id :: int
  text_original :: jsstring
  text_cleaned :: jsstring
  embedding :: "double list"

text \<open>What the embedding backend returns, as far as the handler reads it.\<close>

record embed_result =
  embedding_values :: "double list option"
  embeddings0_values :: "double list option"

text \<open>
  What a request takes from outside the program: the clock (\<open>Date.now()\<close> in the
  middleware and at the two pushes), \<open>uuidv4()\<close>, the local hour, \<open>Math.random()\<close>, the
  runtime's case table and number printer, the TypeError the runtime throws, and the
  outcomes of the two backend calls. The prompt is only passed to the generation
  backend, whose outcome is an input here. \<open>lower_full\<close> is
  \<open>String.prototype.toLowerCase\<close> on a whole string, where the result is read as it
  is (Unicode's rules that look at the context, as for the final sigma, are not a table
  of code units); \<open>arith\<close> holds the floating-point operations, and \<open>sort_nan\<close> is
  what \<open>Array.prototype.sort\<close> makes of the scored list when a score is NaN.
\<close>

record env =
  now :: nat
  ts_user :: nat
  ts_reply :: nat
  uuid :: jsstring
  hour :: nat
  math_random :: real
  lower_ext :: "nat \<Rightarrow> nat list"
  show_num :: "real \<Rightarrow> jsstring"
  type_error :: js_error
  embed :: "jsstring \<Rightarrow> js_error + embed_result"
  generate :: "js_error + jsstring"
  lower_full :: "jsstring \<Rightarrow> jsstring"
  arith :: arith
  sort_nan :: "(chunk \<times> double) list \<Rightarrow> (chunk \<times> double) list"

definition resolve_sid :: "request \<Rightarrow> json option" where
  "resolve_sid req =
     js_or (map_option JStr (header_sid req))
       (js_or (get_prop (body req) (ascii ''sessionId'')) (cookie_sid req))"

text \<open>\<open>!sid || typeof sid !== "string" || sid.length > 200\<close> fails: the string is used.\<close>

definition valid_sid :: "json option \<Rightarrow> jsstring option" where
  "valid_sid v =
     (case v of
        Some (JStr s) \<Rightarrow> if s \<noteq> [] \<and> length s \<le> 200 then Some s else None
      | _ \<Rightarrow> None)"

text \<open>The middleware gives the session id, whether a cookie was set, and the store.\<close>

definition sessionMiddleware :: "env \<Rightarrow> sessions \<Rightarrow> request \<Rightarrow> jsstring \<times> bool \<times> sessions" where
  "sessionMiddleware e ss req =
     (let (sid, minted) =
            (case valid_sid (resolve_sid req) of
               Some s \<Rightarrow> (s, False)
             | None \<Rightarrow> (uuid e, True));
          ss' = (case ss sid of
                   None \<Rightarrow> ss(sid \<mapsto> \<lparr>history = [], createdAt = now e, lastSeen = now e\<rparr>)
                 | Some s \<Rightarrow> ss(sid \<mapsto> s\<lparr>lastSeen := now e\<rparr>))
      in (sid, minted, ss'))"

text \<open>\<open>req.session\<close> is the store's own object: a write to it is a write to the store.\<close>

definition update_session :: "jsstring \<Rightarrow> (session \<Rightarrow> session) \<Rightarrow> sessions \<Rightarrow> sessions" where
  "update_session sid f ss = (case ss sid of None \<Rightarrow> ss | Some s \<Rightarrow> ss(sid \<mapsto> f s))"

record reset_response =
  reset_sessionId :: jsstring
  cleared :: bool

definition reset :: "env \<Rightarrow> sessions \<Rightarrow> request \<Rightarrow> reset_response \<times> sessions" where
  "reset e ss req =
     (case sessionMiddleware e ss req of (sid, minted, ss1) \<Rightarrow>
        (\<lparr>reset_sessionId = sid, cleared = True\<rparr>,
         update_session sid (\<lambda>s. s\<lparr>history := []\<rparr>) ss1))"

record session_info =
  info_sessionId :: jsstring
  historyLength :: nat
  info_createdAt :: nat
  info_lastSeen :: nat

definition sessionInfo :: "env \<Rightarrow> sessions \<Rightarrow> request \<Rightarrow> session_info option \<times> sessions" where
  "sessionInfo e ss req =
     (case sessionMiddleware e ss req of (sid, minted, ss1) \<Rightarrow>
        (map_option (\<lambda>s. \<lparr>info_sessionId = sid, historyLength = length (history s),
                          info_createdAt = createdAt s, info_lastSeen = lastSeen s\<rparr>) (ss1 sid),
         ss1))"

section \<open>Small talk (server.mjs, makeSmallTalkReply, smallTalkMatch)\<close>

datatype kind = Hello | Morning | Afternoon | Evening | Thanks | Bye | Help | Ack

definition getTimeOfDayGreeting :: "nat \<Rightarrow> jsstring" where
  "getTimeOfDayGreeting h =
     (if h < 5 then ascii ''Good night''
      else if h < 12 then ascii ''Good morning''
      else if h < 17 then ascii ''Good afternoon''
      else if h < 21 then ascii ''Good evening''
      else ascii ''Hello'')"

fun bank_en :: "nat \<Rightarrow> kind \<Rightarrow> jsstring list" where
  "bank_en h Hello =
       [getTimeOfDayGreeting h @ ascii ''! '' @ [55357, 56395] @ ascii '' I'' @ [8217] @
         ascii ''m HCA'' @ [8217] @
         ascii ''s assistant. Ask me anything about HCA (brands, machines, spares, etc.).'',
        ascii ''Hello! '' @ [55357, 56395] @ ascii '' How can I help you with HCA today?'',
        ascii ''Hi! '' @ [55357, 56395] @ ascii '' I'' @ [8217] @
         ascii ''m here for HCA queries'' @ [8212] @ ascii ''try '' @ [8220] @
         ascii ''About HCA'' @ [8221] @ ascii '', '' @ [8220] @ ascii ''Duke-Jia details'' @
         [8221] @ ascii '', or '' @ [8220] @ ascii ''Spares info'' @ [8221] @ ascii ''.'']"
| "bank_en h Morning =
       [ascii ''Good morning! '' @ [9728, 65039] @
         ascii '' How can I help with HCA today?'']"
| "bank_en h Afternoon =
       [ascii ''Good afternoon! '' @ [55357, 56842] @
         ascii '' What would you like to know about HCA?'']"
| "bank_en h Evening =
       [ascii ''Good evening! '' @ [55356, 57113] @
         ascii '' Need help with HCA machines or spares?'']"
| "bank_en h Thanks =
       [ascii ''You'' @ [8217] @ ascii ''re welcome! '' @ [55357, 56911] @
         ascii '' Anything else I can do for you about HCA?'',
        ascii ''Happy to help! If you need more info, just ask. '' @ [55357, 56898]]"
| "bank_en h Bye =
       [ascii ''Take care! '' @ [55357, 56395] @ ascii '' If you need HCA help later, I'' @
         [8217] @ ascii ''m here.'',
        ascii ''Bye! Have a great day. '' @ [55357, 56395]]"
| "bank_en h Help =
       [ascii ''I answer from HCA'' @ [8217] @ ascii ''s knowledge base. You can ask: '' @
         [8220] @ ascii ''Which brands do we represent?'' @ [8221] @ ascii '', '' @ [8220] @
         ascii ''About Duke-Jia E'' @ [43] @ ascii ''P flagship'' @ [8221] @
         ascii '', or '' @ [8220] @ ascii ''Industries we serve?'' @ [8221]]"
| "bank_en h Ack =
       [ascii ''Got it! '' @ [55357, 56397] @
         ascii '' What would you like to ask about HCA next?'',
        ascii ''Okay. Tell me your HCA question'' @ [8212] @
         ascii ''brands, machines, or spares.'']"

fun bank_hi :: "nat \<Rightarrow> kind \<Rightarrow> jsstring list" where
  "bank_hi h Hello =
       [ascii ''Namaste! '' @ [55357, 56395] @
         ascii '' HCA assistant bol raha hoon. HCA se related kuch bhi puchhiye (brands, machines, spares).'',
        ascii ''Hello ji! '' @ [55357, 56395] @ ascii '' HCA ke baare mein madad chahiye?'',
        ascii ''Hi! '' @ [55357, 56395] @ ascii '' Aap HCA queries puchh sakte ho'' @
         [8212, 8220] @ ascii ''About HCA'' @ [8221] @ ascii '', '' @ [8220] @
         ascii ''Duke-Jia details'' @ [8221] @ ascii '', '' @ [8220] @
         ascii ''Spares info'' @ [8221] @ ascii ''.'']"
| "bank_hi h Morning =
       [ascii ''Good morning! '' @ [9728, 65039] @
         ascii '' Aaj HCA mein kis cheez mein help chahiye?'']"
| "bank_hi h Afternoon =
       [ascii ''Good afternoon! '' @ [55357, 56842] @
         ascii '' HCA ke baare mein kya jaan'' @ [8217] @ ascii ''na chahoge?'']"
| "bank_hi h Evening =
       [ascii ''Good evening! '' @ [55356, 57113] @
         ascii '' HCA machines/spares par madad chahiye to batayein.'']"
| "bank_hi h Thanks =
       [ascii ''Shukriya! '' @ [55357, 56911] @
         ascii '' Aur kuch madad chahiye to pooch lijiye.'',
        ascii ''Welcome ji! '' @ [55357, 56898] @ ascii '' Aur koi HCA info chahiye?'']"
| "bank_hi h Bye =
       [ascii ''Theek hai, milte hain! '' @ [55357, 56395] @
         ascii '' Jab chahein HCA help ke liye ping kar dijiyega.'',
        ascii ''Bye! '' @ [55357, 56395] @ ascii '' Din shubh rahe.'']"
| "bank_hi h Help =
       [ascii ''Main HCA ke knowledge base se answer karta hoon. Aap pooch sakte ho: '' @
         [8220] @ ascii ''Hum kin brands ko represent karte hain?'' @ [8221] @
         ascii '', '' @ [8220] @ ascii ''Duke-Jia E'' @ [43] @
         ascii ''P flagship kya hai?'' @ [8221] @ ascii '', '' @ [8220] @
         ascii ''Hum kaun-kaun si industries serve karte hain?'' @ [8221]]"
| "bank_hi h Ack =
       [ascii ''Thik hai! '' @ [55357, 56397] @
         ascii '' Ab HCA ke baare mein kya puchhna hai?'',
        ascii ''Okay ji. HCA'' @ [8212] @ ascii ''brands, machines ya spares'' @ [8212] @
         ascii ''kis par info chahiye?'']"

text \<open>\<open>arr[Math.floor(Math.random() * arr.length)]\<close>\<close>

definition pick :: "real \<Rightarrow> 'a list \<Rightarrow> 'a" where
  "pick r arr = arr ! nat \<lfloor>r * real (length arr)\<rfloor>"

definition makeSmallTalkReply :: "env \<Rightarrow> kind \<Rightarrow> mode \<Rightarrow> jsstring" where
  "makeSmallTalkReply e k m =
     (let bank = (if m = Hinglish then bank_hi (hour e) else bank_en (hour e))
      in pick (math_random e) (bank k))"

text \<open>
  The regular expressions of \<open>smallTalkMatch\<close>, all with the flag \<open>i\<close> and without the
  flag \<open>u\<close>: a letter of the pattern matches the ASCII letter in either case and no
  other code unit; \<open>\b\<close> reads \<open>[A-Za-z0-9_]\<close> as the word characters. Of the operators
  the patterns use: a literal, \<open>c+\<close> and \<open>[cd]+\<close> (\<open>Plus\<close>), \<open>\s*\<close> (\<open>Spaces\<close>), \<open>r?\<close>,
  sequence, alternation and \<open>\b\<close>. A position in the subject is the code unit before it
  (if any) and the rest; \<open>rx_ends\<close> lists the positions where a match starting at a
  position can end, so \<open>test\<close> succeeds when the list is not empty.
\<close>

datatype rx =
    Lit jsstring
  | Plus "nat list"
  | Spaces
  | Opt rx
  | Seq "rx list"
  | Alt "rx list"
  | WordB

definition ascii_upper :: "nat \<Rightarrow> nat" where
  "ascii_upper c = (if 97 \<le> c \<and> c \<le> 122 then c - 32 else c)"

definition ci_eq :: "nat \<Rightarrow> nat \<Rightarrow> bool" where
  "ci_eq c x \<longleftrightarrow> (if c < 128 then x < 128 \<and> ascii_upper x = ascii_upper c else x = c)"

definition is_word_char :: "nat \<Rightarrow> bool" where
  "is_word_char c \<longleftrightarrow>
     (48 \<le> c \<and> c \<le> 57) \<or> (65 \<le> c \<and> c \<le> 90) \<or> c = 95 \<or> (97 \<le> c \<and> c \<le> 122)"

type_synonym position = "nat option \<times> jsstring"

fun lit_ends :: "jsstring \<Rightarrow> position \<Rightarrow> position list" where
  "lit_ends [] st = [st]"
| "lit_ends (c # cs) (p, []) = []"
| "lit_ends (c # cs) (p, x # xs) = (if ci_eq c x then lit_ends cs (Some x, xs) else [])"

fun plus_ends :: "nat list \<Rightarrow> position \<Rightarrow> position list" where
  "plus_ends cls (p, []) = []"
| "plus_ends cls (p, x # xs) =
     (if list_ex (\<lambda>c. ci_eq c x) cls then (Some x, xs) # plus_ends cls (Some x, xs) else [])"

fun spaces_ends :: "position \<Rightarrow> position list" where
  "spaces_ends (p, []) = [(p, [])]"
| "spaces_ends (p, x # xs) =
     (p, x # xs) # (if is_space x then spaces_ends (Some x, xs) else [])"

definition word_boundary :: "position \<Rightarrow> bool" where
  "word_boundary st =
     (case st of (p, s) \<Rightarrow>
        (case p of None \<Rightarrow> False | Some c \<Rightarrow> is_word_char c)
        \<noteq> (case s of [] \<Rightarrow> False | x # xs \<Rightarrow> is_word_char x))"

fun rx_ends :: "rx \<Rightarrow> position \<Rightarrow> position list" where
  "rx_ends (Lit s) st = lit_ends s st"
| "rx_ends (Plus cls) st = plus_ends cls st"
| "rx_ends Spaces st = spaces_ends st"
| "rx_ends (Opt r) st = rx_ends r st @ [st]"
| "rx_ends (Seq []) st = [st]"
| "rx_ends (Seq (r # rs)) st = concat (map (rx_ends (Seq rs)) (rx_ends r st))"
| "rx_ends (Alt rs) st = concat (map (\<lambda>r. rx_ends r st) rs)"
| "rx_ends WordB st = (if word_boundary st then [st] else [])"

text \<open>\<open>re.test(t)\<close> for a pattern that starts with \<open>^\<close>, and for one that does not.\<close>

definition test_anchored :: "rx \<Rightarrow> jsstring \<Rightarrow> bool" where
  "test_anchored r t \<longleftrightarrow> rx_ends r (None, t) \<noteq> []"

fun test_from :: "rx \<Rightarrow> position \<Rightarrow> bool" where
  "test_from r (p, []) \<longleftrightarrow> rx_ends r (p, []) \<noteq> []"
| "test_from r (p, x # xs) \<longleftrightarrow> rx_ends r (p, x # xs) \<noteq> [] \<or> test_from r (Some x, xs)"

definition test_anywhere :: "rx \<Rightarrow> jsstring \<Rightarrow> bool" where
  "test_anywhere r t \<longleftrightarrow> test_from r (None, t)"

definition lit :: "string \<Rightarrow> rx" where
  "lit s = Lit (ascii s)"

definition rep :: "string \<Rightarrow> rx" where
  "rep s = Plus (ascii s)"

definition hello_re :: rx where
  "hello_re =
     Seq [Alt [Seq [lit ''h'', rep ''i''], Seq [lit ''h'', rep ''iy''], Seq [lit ''hell'', rep ''o''],
               Seq [lit ''hey'', Opt (lit '' there'')], Seq [lit ''hl'', rep ''o''],
               Seq [lit ''hlo'', rep ''o''], Seq [lit ''y'', rep ''o''], lit ''hola'', lit ''namaste'',
               lit ''namaskar'', lit ''salaam'', lit ''salam'', lit ''sup'',
               Seq [lit ''was'', Opt (lit ''s''), lit ''up''],
               Seq [lit ''what'', Opt (Lit [39]), lit ''s up''],
               Lit [55357, 56395], Lit [55357, 56911]],
          WordB]"

definition morning_re :: rx where
  "morning_re = Seq [lit ''good'', Spaces, lit ''morning'', WordB]"

definition afternoon_re :: rx where
  "afternoon_re = Seq [lit ''good'', Spaces, lit ''afternoon'', WordB]"

definition evening_re :: rx where
  "evening_re = Seq [lit ''good'', Spaces, lit ''evening'', WordB]"

definition ack_re :: rx where
  "ack_re =
     Seq [Alt [Seq [lit ''o'', rep ''k''], Seq [lit ''oka'', rep ''y''], Seq [lit ''ok'', rep ''k''],
               Seq [lit ''hm'', rep ''m''], Seq [lit ''haa'', rep ''n''], Seq [lit ''h'', rep ''a''],
               lit ''sure'', lit ''done'', lit ''great'', lit ''nice'', lit ''cool'', lit ''perfect'',
               lit ''thik'', lit ''theek'', lit ''fine''],
          WordB]"

definition thanks_re :: rx where
  "thanks_re =
     Seq [Alt [lit ''thanks'', Seq [lit ''thank'', Spaces, lit ''you''], lit ''thx'', lit ''ty'',
               Seq [lit ''much'', Spaces, Alt [lit ''appreciated'', lit ''thanks'']],
               Seq [lit ''many'', Spaces, lit ''thanks''],
               Seq [lit ''appreciate'', Opt (lit ''d'')],
               lit ''shukriya'', lit ''dhanyavaad'', lit ''dhanyavad''],
          WordB]"

definition bye_re :: rx where
  "bye_re =
     Seq [Alt [lit ''bye'', Seq [lit ''good'', Spaces, lit ''bye''], lit ''goodbye'',
               Seq [lit ''see'', Spaces, lit ''ya''], Seq [lit ''see'', Spaces, lit ''you''],
               Seq [lit ''take'', Spaces, lit ''care''], lit ''tc'',
               Seq [lit ''catch'', Spaces, lit ''you'', Spaces, lit ''later'']],
          WordB]"

definition help_re :: rx where
  "help_re =
     Seq [Alt [Seq [lit ''who'', Spaces, lit ''are'', Spaces, lit ''you''],
               Seq [lit ''what'', Spaces, lit ''can'', Spaces, lit ''you'', Spaces, lit ''do''],
               lit ''help'', lit ''menu'', lit ''options'',
               Seq [lit ''how'', Spaces, lit ''to'', Spaces, lit ''use'']],
          WordB]"

definition smallTalkMatch :: "jsstring \<Rightarrow> kind option" where
  "smallTalkMatch q =
     (let t = trim q in
      if test_anchored hello_re t then Some Hello
      else if test_anchored morning_re t then Some Morning
      else if test_anchored afternoon_re t then Some Afternoon
      else if test_anchored evening_re t then Some Evening
      else if test_anchored ack_re t then Some Ack
      else if test_anchored thanks_re t then Some Thanks
      else if test_anchored bye_re t then Some Bye
      else if test_anywhere help_re t then Some Help
      else None)"

section \<open>Retrieval and the ask handler (server.mjs, /api/ask)\<close>

text \<open>
  The index as loaded and \<open>TOP_K\<close>, the integer \<open>parseInt\<close> gives for the setting
  (6 when there is none). Where \<open>parseInt\<close> gives \<open>NaN\<close>, \<open>slice\<close> reads it as 0.
  A negative \<open>TOP_K\<close> makes \<open>slice\<close> count from the end of the array.
\<close>

record config =
  VECTORS :: "chunk list"
  TOP_K :: int

text \<open>\<open>VECTORS.map((v) => ({ ...v, score: cosineSim(qVec, v.embedding) }))\<close>\<close>

definition score_all :: "env \<Rightarrow> config \<Rightarrow> double list \<Rightarrow> (chunk \<times> double) list" where
  "score_all e cfg qVec = map (\<lambda>v. (v, cosineSim (arith e) qVec (embedding v))) (VECTORS cfg)"

text \<open>\<open>.sort((a, b) => b.score - a.score).slice(0, TOP_K)\<close>\<close>

definition retrieve :: "env \<Rightarrow> config \<Rightarrow> double list \<Rightarrow> (chunk \<times> double) list" where
  "retrieve e cfg qVec =
     (let scored = score_all e cfg qVec;
          sorted = (if has_nan scored then sort_nan e scored else sort_scores scored)
      in js_slice sorted 0 (TOP_K cfg))"

text \<open>\<open>MIN_OK_SCORE = 0.18\<close>: the double the literal denotes, a little below 18/100.\<close>

definition MIN_OK_SCORE :: real where
  "MIN_OK_SCORE = 3242591731706757 / 2 ^ 54"

text \<open>\<open>scored.length === 0 || (scored?.[0]?.score ?? 0) < MIN_OK_SCORE\<close>\<close>

definition gated :: "(chunk \<times> double) list \<Rightarrow> bool" where
  "gated scored \<longleftrightarrow> scored = [] \<or> js_less (snd (hd scored)) (Fin MIN_OK_SCORE)"

definition citations_of :: "(chunk \<times> double) list \<Rightarrow> (nat \<times> double) list" where
  "citations_of scored = map (\<lambda>(i, (v, score)). (i + 1, score)) (enumerate 0 scored)"

datatype call = EmbedCall jsstring | GenerateCall

text \<open>
  The responses: \<open>res.status(s).json({answer, sessionId, mode, citations})\<close>, the 400
  with only an error text, and the response of the \<open>catch\<close> block with status, error
  text and, in the details, the status text and the type.
\<close>

datatype response =
    Answer nat jsstring jsstring mode "(nat \<times> double) list"
  | Rejected jsstring
  | Failed nat jsstring "jsstring option" "jsstring option"

record outcome =
  response :: response
  calls :: "call list"
  store :: sessions
  cookie :: "jsstring option"

text \<open>\<open>a || b\<close> on strings that may be undefined: the first that is not empty.\<close>

fun first_text :: "jsstring option list \<Rightarrow> jsstring option" where
  "first_text [] = None"
| "first_text (None # rest) = first_text rest"
| "first_text (Some s # rest) = (if s \<noteq> [] then Some s else first_text rest)"

definition catch_response :: "js_error \<Rightarrow> response" where
  "catch_response err =
     (let status = (case err_status err of None \<Rightarrow> 500 | Some n \<Rightarrow> if n \<noteq> 0 then n else 500);
          msg = (case first_text [err_message err, err_statusText err] of
                   None \<Rightarrow> ascii ''Generation failed''
                 | Some m \<Rightarrow> m)
      in Failed status msg (first_text [err_statusText err]) (first_text [err_name err]))"

definition user_turn :: "env \<Rightarrow> jsstring \<Rightarrow> turn" where
  "user_turn e q = \<lparr>role = User, content = q, ts = ts_user e\<rparr>"

definition assistant_turn :: "env \<Rightarrow> jsstring \<Rightarrow> turn" where
  "assistant_turn e reply = \<lparr>role = Assistant, content = reply, ts = ts_reply e\<rparr>"

definition push :: "turn \<Rightarrow> session \<Rightarrow> session" where
  "push t s = s\<lparr>history := history s @ [t]\<rparr>"

text \<open>The two pushes and the response of every branch that answers without generation.\<close>

definition reply_with ::
  "env \<Rightarrow> sessions \<Rightarrow> jsstring \<Rightarrow> jsstring \<Rightarrow> mode \<Rightarrow> nat \<Rightarrow> jsstring \<Rightarrow> response \<times> sessions" where
  "reply_with e ss sid q m status reply =
     (Answer status reply sid m [],
      update_session sid (push (assistant_turn e reply))
        (update_session sid (push (user_turn e q)) ss))"

definition not_loaded_text :: "mode \<Rightarrow> jsstring" where
  "not_loaded_text m =
     (if m = Hinglish then
         ascii ''Embeddings load nahi hue. Pehle '' @ [96] @ ascii ''npm run embed'' @
         [96] @ ascii '' chalaa kar knowledge base taiyaar kijiye.''
      else
         ascii ''Embeddings are not loaded. Please run '' @ [96] @ ascii ''npm run embed'' @
         [96] @ ascii '' to prepare the knowledge base.'')"

definition no_context_text :: "mode \<Rightarrow> jsstring" where
  "no_context_text m =
     (if m = Hinglish then
         ascii ''Is topic par knowledge base mein clear info nahi mil rahi. Thoda specific likhiye'' @
         [8212] @ ascii ''jaise '' @ [39] @ ascii ''Duke-Jia E'' @ [43] @
         ascii ''P flagship features'' @ [39] @ ascii '' ya '' @ [39] @
         ascii ''Highlead 269 application'' @ [39] @ ascii ''.''
      else
         ascii ''I couldn'' @ [8217] @
         ascii ''t find clear context in the knowledge base for that. Try being more specific'' @
         [8212] @ ascii ''for example, '' @ [39] @ ascii ''Duke-Jia E'' @ [43] @
         ascii ''P flagship features'' @ [39] @ ascii '' or '' @ [39] @
         ascii ''Highlead 269 application'' @ [39] @ ascii ''.'')"

definition missing_question_text :: jsstring where
  "missing_question_text =
     ascii ''Missing '' @ [39] @ ascii ''question'' @ [39] @ ascii '' (or '' @ [39] @
     ascii ''message'' @ [39] @ ascii '') string''"

text \<open>\<open>embRes?.embedding?.values || embRes?.embeddings?.[0]?.values || []\<close>\<close>

definition query_vector :: "embed_result \<Rightarrow> double list" where
  "query_vector embRes =
     (case embedding_values embRes of
        Some v \<Rightarrow> v
      | None \<Rightarrow> (case embeddings0_values embRes of Some v \<Rightarrow> v | None \<Rightarrow> []))"

text \<open>\<open>cleanForEmbedding(q) || q.toLowerCase()\<close>\<close>

definition cleaned_query :: "env \<Rightarrow> jsstring \<Rightarrow> jsstring" where
  "cleaned_query e q =
     (let cleaned = cleanForEmbedding (lower_ext e) q
      in if cleaned \<noteq> [] then cleaned else lower_full e q)"

text \<open>Step 3 of the handler, the RAG route. It gives the response, the calls, the store.\<close>

definition rag_route ::
  "config \<Rightarrow> env \<Rightarrow> sessions \<Rightarrow> jsstring \<Rightarrow> jsstring \<Rightarrow> mode \<Rightarrow> response \<times> call list \<times> sessions" where
  "rag_route cfg e ss sid q m =
     (if VECTORS cfg = [] then
        (case reply_with e ss sid q m 500 (not_loaded_text m) of (r, ss') \<Rightarrow> (r, [], ss'))
      else
        let cleanedQuery = cleaned_query e q
        in case embed e cleanedQuery of
             Inl err \<Rightarrow> (catch_response err, [EmbedCall cleanedQuery], ss)
           | Inr embRes \<Rightarrow>
               let scored = retrieve e cfg (query_vector embRes) in
               if gated scored then
                 (case reply_with e ss sid q m 200 (no_context_text m) of
                    (r, ss') \<Rightarrow> (r, [EmbedCall cleanedQuery], ss'))
               else
                 let ss1 = update_session sid (push (user_turn e q)) ss in
                 case generate e of
                   Inl err \<Rightarrow> (catch_response err, [EmbedCall cleanedQuery, GenerateCall], ss1)
                 | Inr answer \<Rightarrow>
                     (Answer 200 answer sid m (citations_of scored),
                      [EmbedCall cleanedQuery, GenerateCall],
                      update_session sid (push (assistant_turn e answer)) ss1))"

text \<open>\<open>q.replace(/[\W_]+/g, "")\<close>: the ASCII letters and digits of \<open>q\<close>.\<close>

definition lettersOnly :: "jsstring \<Rightarrow> jsstring" where
  "lettersOnly q = filter (\<lambda>c. is_word_char c \<and> c \<noteq> 95) q"

text \<open>\<open>(req.body?.question ?? req.body?.message ?? "")\<close>\<close>

definition selected_value :: "request \<Rightarrow> json option" where
  "selected_value req =
     js_coalesce (get_prop (body req) (ascii ''question''))
       (js_coalesce (get_prop (body req) (ascii ''message'')) (Some (JStr [])))"

text \<open>After validation: the ultra-short guard, the small talk detector, the RAG route.\<close>

definition answer_question ::
  "config \<Rightarrow> env \<Rightarrow> sessions \<Rightarrow> jsstring \<Rightarrow> jsstring \<Rightarrow> response \<times> call list \<times> sessions" where
  "answer_question cfg e ss sid question =
     (let q = trim question;
          m = detectResponseMode (lower_ext e) q
      in if length (lettersOnly q) \<le> 3 then
           (case reply_with e ss sid q m 200 (makeSmallTalkReply e Hello m) of
              (r, ss') \<Rightarrow> (r, [], ss'))
         else
           case smallTalkMatch q of
             Some k \<Rightarrow>
               (case reply_with e ss sid q m 200 (makeSmallTalkReply e k m) of
                  (r, ss') \<Rightarrow> (r, [], ss'))
           | None \<Rightarrow> rag_route cfg e ss sid q m)"

definition ask :: "config \<Rightarrow> env \<Rightarrow> sessions \<Rightarrow> request \<Rightarrow> outcome" where
  "ask cfg e ss req =
     (case sessionMiddleware e ss req of (sid, minted, ss1) \<Rightarrow>
        let (r, cs, ss2) =
          (case selected_value req of
             None \<Rightarrow> (catch_response (type_error e), [], ss1)
           | Some v \<Rightarrow>
               (case to_string (show_num e) v of
                  None \<Rightarrow> (catch_response (type_error e), [], ss1)
                | Some question \<Rightarrow>
                    if question = [] \<or> \<not> typeof_string (JStr question) then
                      (Rejected missing_question_text, [], ss1)
                    else answer_question cfg e ss1 sid question))
        in \<lparr>response = r, calls = cs, store = ss2,
            cookie = (if minted then Some sid else None)\<rparr>)"

text \<open>
  The question a request is validated to carry: the string of the selected value, when
  \<open>toString\<close> returns and the string is not empty.
\<close>

definition validated_question :: "env \<Rightarrow> request \<Rightarrow> jsstring option" where
  "validated_question e req =
     (case selected_value req of
        None \<Rightarrow> None
      | Some v \<Rightarrow>
          (case to_string (show_num e) v of
             None \<Rightarrow> None
           | Some question \<Rightarrow> if question = [] then None else Some question))"

text \<open>
  The reading of "both question and message are absent or coerce to the empty string":
  each of the two fields is \<open>undefined\<close> or \<open>null\<close>, or has the empty string as its
  string.
\<close>

definition absent_or_empty :: "env \<Rightarrow> json option \<Rightarrow> bool" where
  "absent_or_empty e v \<longleftrightarrow>
     nullish v \<or> (case v of None \<Rightarrow> False | Some x \<Rightarrow> to_string (show_num e) x = Some [])"

definition both_absent_or_empty :: "env \<Rightarrow> request \<Rightarrow> bool" where
  "both_absent_or_empty e req \<longleftrightarrow>
     absent_or_empty e (get_prop (body req) (ascii ''question''))
     \<and> absent_or_empty e (get_prop (body req) (ascii ''message''))"

section \<open>Example inputs\<close>

definition example_error :: js_error where
  "example_error =
     \<lparr>err_status = Some 429, err_message = Some (ascii ''quota exceeded''),
      err_statusText = Some (ascii ''Too Many Requests''), err_name = Some (ascii ''Error'')\<rparr>"

definition example_env :: env where
  "example_env =
     \<lparr>now = 50, ts_user = 51, ts_reply = 52, uuid = ascii ''fresh-id'', hour = 9,
      math_random = 1 / 2, lower_ext = (\<lambda>c. [c]), show_num = (\<lambda>r. ascii ''12345''),
      type_error = \<lparr>err_status = None, err_message = Some (ascii ''not a function''),
                     err_statusText = None, err_name = Some (ascii ''TypeError'')\<rparr>,
      embed = (\<lambda>q. Inr \<lparr>embedding_values = Some [Fin 1, Fin 0], embeddings0_values = None\<rparr>),
      generate = Inr (ascii ''HCA represents Duke and Kansai.''),
      lower_full = toLowerCase (\<lambda>c. [c]),
      arith = ieee, sort_nan = (\<lambda>scored. scored)\<rparr>"

definition example_config :: config where
  "example_config =
     \<lparr>VECTORS =
        [\<lparr>chunk_id = 0, text_original = ascii ''Spares'', text_cleaned = ascii ''spares'',
          embedding = [Fin 0, Fin 2]\<rparr>,
         \<lparr>chunk_id = 1, text_original = ascii ''Brands'', text_cleaned = ascii ''brands'',
          embedding = [Fin 2, Fin 0]\<rparr>,
         \<lparr>chunk_id = 2, text_original = ascii ''Duke'', text_cleaned = ascii ''duke'',
          embedding = [Fin (- 4), Fin 0]\<rparr>],
      TOP_K = 2\<rparr>"

definition example_store :: sessions where
  "example_store =
     [ascii ''s1'' \<mapsto>
        \<lparr>history = [\<lparr>role = User, content = ascii ''hello'', ts = 10\<rparr>,
                    \<lparr>role = Assistant, content = ascii ''Hello!'', ts = 11\<rparr>],
         createdAt = 10, lastSeen = 11\<rparr>]"

definition example_request :: "json \<Rightarrow> request" where
  "example_request question =
     \<lparr>header_sid = Some (ascii ''s1''),
      body = Some (JObj [(ascii ''question'', question)]),
      cookie_sid = None\<rparr>"

definition example_request_with_message :: "json \<Rightarrow> json \<Rightarrow> request" where
  "example_request_with_message question message =
     \<lparr>header_sid = Some (ascii ''s1''),
      body = Some (JObj [(ascii ''question'', question), (ascii ''message'', message)]),
      cookie_sid = None\<rparr>"

definition failing_generation_env :: env where
  "failing_generation_env = example_env\<lparr>generate := Inl example_error\<rparr>"

definition failing_embedding_env :: env where
  "failing_embedding_env = example_env\<lparr>embed := (\<lambda>q. Inl example_error)\<rparr>"

definition low_score_env :: env where
  "low_score_env =
     example_env\<lparr>embed :=
       (\<lambda>q. Inr \<lparr>embedding_values = Some [Fin 0, Fin (- 1)], embeddings0_values = None\<rparr>)\<rparr>"

section \<open>Chunking: the loop against the sliding windows\<close>


lemma js_slice_window:
  assumes "s < length text"
  shows "js_slice text (int s) (min (int s + int sz) (int (length text))) = take sz (drop s text)"
proof -
  have e: "rel_index (min (int s + int sz) (int (length text))) (length text) = min (s + sz) (length text)"
    by (simp add: rel_index_def min_def nat_add_distrib)
  have f: "rel_index (int s) (length text) = s"
    using assms by (simp add: rel_index_def)
  have "take (min (s + sz) (length text) - s) (drop s text) = take sz (drop s text)"
    using assms by (cases "sz \<le> length text - s") (simp_all add: min_def)
  then show ?thesis by (simp add: js_slice_def e f)
qed

lemma chunk_loop_windows:
  assumes "0 < overlap" "overlap < sz" "s < length text"
  shows "chunk_loop text (int sz) (int overlap) (int s) acc =
     Some (acc @ filter (\<lambda>c. c \<noteq> []) (map trim (map (\<lambda>st. take sz (drop st text))
        (window_starts (length text) sz (sz - overlap) s))))"
  using assms(3)
proof (induction "length text - s" arbitrary: s acc rule: less_induct)
  case less
  let ?w = "take sz (drop s text)"
  let ?acc' = "if trim ?w \<noteq> [] then acc @ [trim ?w] else acc"
  show ?case
  proof (cases "length text \<le> s + sz")
    case True
    then have "min (int s + int sz) (int (length text)) = int (length text)" by simp
    moreover have "window_starts (length text) sz (sz - overlap) s = [s]"
      using True by (subst window_starts.simps) simp
    ultimately show ?thesis
      using less.prems True js_slice_window [OF less.prems, of sz]
      by (subst chunk_loop.simps) (simp add: Let_def)
  next
    case False
    then have m: "min (int s + int sz) (int (length text)) = int s + int sz" by simp
    have nxt: "max 0 (int s + int sz - int overlap) = int (s + (sz - overlap))"
      using assms by simp
    have lt: "s + (sz - overlap) < length text" using False assms by simp
    have dec: "length text - (s + (sz - overlap)) < length text - s"
      using lt assms by simp
    have st: "sz - overlap \<noteq> 0" using assms by simp
    have ws: "window_starts (length text) sz (sz - overlap) s =
        s # window_starts (length text) sz (sz - overlap) (s + (sz - overlap))"
      using False st by (subst window_starts.simps) simp
    have "chunk_loop text (int sz) (int overlap) (int s) acc =
        chunk_loop text (int sz) (int overlap) (int (s + (sz - overlap))) ?acc'"
      using less.prems False js_slice_window [OF less.prems, of sz]
      by (subst chunk_loop.simps) (simp only: m nxt Let_def, simp)
    also have "\<dots> = Some (?acc' @ filter (\<lambda>c. c \<noteq> []) (map trim (map (\<lambda>st. take sz (drop st text))
        (window_starts (length text) sz (sz - overlap) (s + (sz - overlap))))))"
      by (rule less.hyps [OF dec lt])
    finally show ?thesis
      by (simp add: ws)
  qed
qed



lemma length_trim_le: "length (trim s) \<le> length s"
proof -
  have "length (trim s) \<le> length (dropWhile is_space s)"
    unfolding trim_def using length_dropWhile_le [of is_space "rev (dropWhile is_space s)"] by simp
  also have "\<dots> \<le> length s" by (rule length_dropWhile_le)
  finally show ?thesis .
qed

lemma window_starts_Cons:
  "\<exists>rest. window_starts len sz step s = s # rest"
  by (subst window_starts.simps) simp

lemma windows_cover:
  assumes "0 < overlap" "overlap < sz" "s < length text"
  shows "rebuild overlap (map (\<lambda>st. take sz (drop st text))
            (window_starts (length text) sz (sz - overlap) s)) = drop s text"
  using assms(3)
proof (induction "length text - s" arbitrary: s rule: less_induct)
  case less
  let ?step = "sz - overlap"
  let ?win = "\<lambda>st. take sz (drop st text)"
  show ?case
  proof (cases "length text \<le> s + sz")
    case True
    then have "window_starts (length text) sz ?step s = [s]"
      by (subst window_starts.simps) simp
    with True show ?thesis by (simp add: rebuild_def)
  next
    case False
    have st: "?step \<noteq> 0" using assms by simp
    have lt: "s + ?step < length text" using False assms by simp
    have dec: "length text - (s + ?step) < length text - s" using lt assms by simp
    have ws: "window_starts (length text) sz ?step s = s # window_starts (length text) sz ?step (s + ?step)"
      using False st by (subst window_starts.simps) simp
    obtain rest' where r': "window_starts (length text) sz ?step (s + ?step) = (s + ?step) # rest'"
      using window_starts_Cons by blast
    define w where "w = ?win (s + ?step)"
    define rest where "rest = map ?win rest'"
    have wr: "map ?win (window_starts (length text) sz ?step (s + ?step)) = w # rest"
      by (simp add: r' w_def rest_def)
    note w = w_def
    have ih: "w @ concat (map (drop overlap) rest) = drop (s + ?step) text"
      using less.hyps [OF dec lt] by (simp add: wr rebuild_def)
    have lw: "overlap \<le> length w" using False assms lt by (simp add: w)
    have "drop overlap w @ concat (map (drop overlap) rest) = drop overlap (w @ concat (map (drop overlap) rest))"
      using lw by simp
    also have "\<dots> = drop (s + sz) text"
      using assms by (simp add: ih add.commute)
    finally have tl: "drop overlap w @ concat (map (drop overlap) rest) = drop (s + sz) text" .
    have "rebuild overlap (map ?win (window_starts (length text) sz ?step s)) =
        take sz (drop s text) @ drop overlap w @ concat (map (drop overlap) rest)"
      by (simp add: ws wr rebuild_def)
    also have "\<dots> = take sz (drop s text) @ drop sz (drop s text)"
      by (simp add: tl add.commute)
    also have "\<dots> = drop s text" by (rule append_take_drop_id)
    finally show ?thesis .
  qed
qed

lemma windows_last:
  assumes "0 < overlap" "overlap < sz" "s < length text"
  shows "\<exists>st. st < length text \<and> length text \<le> st + sz
     \<and> last (window_starts (length text) sz (sz - overlap) s) = st"
  using assms(3)
proof (induction "length text - s" arbitrary: s rule: less_induct)
  case less
  let ?step = "sz - overlap"
  show ?case
  proof (cases "length text \<le> s + sz")
    case True
    then have "window_starts (length text) sz ?step s = [s]"
      by (subst window_starts.simps) simp
    with True less.prems show ?thesis by simp
  next
    case False
    have st: "?step \<noteq> 0" using assms by simp
    have lt: "s + ?step < length text" using False assms by simp
    have dec: "length text - (s + ?step) < length text - s" using lt assms by simp
    have ne: "window_starts (length text) sz ?step (s + ?step) \<noteq> []"
      using window_starts_Cons [of "length text" sz ?step "s + ?step"] by auto
    have ws: "window_starts (length text) sz ?step s = s # window_starts (length text) sz ?step (s + ?step)"
      using False st by (subst window_starts.simps) simp
    show ?thesis using less.hyps [OF dec lt] ne by (simp add: ws)
  qed
qed


lemma spec_windows_a_b: "spec_windows (ascii ''a b'') 2 1 = [ascii ''a '', ascii '' b'']"
  by code_simp

lemma chunkText_a_b: "chunkText (ascii ''a b'') 2 1 = Some [ascii ''a'', ascii ''b'']"
  unfolding chunkText_def
  apply (subst chunk_loop.simps, simp add: ascii_def js_slice_def rel_index_def trim_def is_space_def)
  apply (subst chunk_loop.simps, simp add: ascii_def js_slice_def rel_index_def trim_def is_space_def)
  done

text \<open>
  C2, as stated, fails: the chunker does not emit the windows themselves. With the text
  "a b", size 2 and overlap 1 the windows are "a " and " b", the emitted chunks are "a"
  and "b", and the space of the text is in no emitted chunk.
\<close>

theorem chunkText_windows_counterexample:
  "chunkText (ascii ''a b'') 2 1 \<noteq> Some (spec_windows (ascii ''a b'') 2 1)
   \<and> (case chunkText (ascii ''a b'') 2 1 of
        None \<Rightarrow> False
      | Some chunks \<Rightarrow> rebuild 1 chunks \<noteq> ascii ''a b'' \<and> 32 \<notin> set (concat chunks))"
  unfolding chunkText_a_b spec_windows_a_b
  by (simp add: ascii_def rebuild_def)

text \<open>
  C2, amended. For every text and every size and overlap with 0 < overlap < size the
  chunker returns, and what it emits are the sliding windows in order, each trimmed of
  surrounding whitespace, without the windows that are empty after the trim. Every
  emitted chunk has at most size code units. The windows themselves (before the trim)
  cover the text: the first window followed by every later window without its first
  overlap code units is the text, and the last window is a suffix of the text, so it
  reaches exactly the end.
\<close>

theorem chunkText_trimmed_windows:
  assumes "0 < overlap" and "overlap < sz"
  shows "\<exists>chunks. chunkText text sz overlap = Some chunks
     \<and> chunks = filter (\<lambda>c. c \<noteq> []) (map trim (spec_windows text (nat sz) (nat overlap)))
     \<and> list_all (\<lambda>c. int (length c) \<le> sz) chunks
     \<and> rebuild (nat overlap) (spec_windows text (nat sz) (nat overlap)) = text
     \<and> (text = [] \<or> (\<exists>st<length text.
           last (spec_windows text (nat sz) (nat overlap)) = drop st text))"
proof -
  define n where "n = nat sz"
  define v where "v = nat overlap"
  have nv: "0 < v" "v < n" and sz: "sz = int n" and ov: "overlap = int v"
    using assms by (simp_all add: n_def v_def)
  let ?ws = "spec_windows text n v"
  let ?cs = "filter (\<lambda>c. c \<noteq> []) (map trim ?ws)"
  have run: "chunkText text sz overlap = Some ?cs"
  proof (cases "text = []")
    case True
    then show ?thesis
      unfolding chunkText_def by (subst chunk_loop.simps) (simp add: spec_windows_def)
  next
    case False
    then have "0 < length text" by simp
    from chunk_loop_windows [OF nv this, of "[]"] False show ?thesis
      by (simp add: chunkText_def spec_windows_def sz ov)
  qed
  have win_len: "length w \<le> n" if "w \<in> set ?ws" for w
    using that by (auto simp: spec_windows_def split: if_splits)
  have "int (length c) \<le> sz" if "c \<in> set ?cs" for c
  proof -
    from that obtain w where "w \<in> set ?ws" "c = trim w" by auto
    with win_len [of w] length_trim_le [of w] show ?thesis by (simp add: sz)
  qed
  then have lens: "list_all (\<lambda>c. int (length c) \<le> sz) ?cs"
    unfolding list_all_iff by blast
  have cover: "rebuild v ?ws = text"
  proof (cases "text = []")
    case True
    then show ?thesis by (simp add: spec_windows_def rebuild_def)
  next
    case False
    then have "0 < length text" by simp
    from windows_cover [OF nv this] False show ?thesis
      by (simp add: spec_windows_def)
  qed
  have lst: "text = [] \<or> (\<exists>st<length text. last ?ws = drop st text)"
  proof (cases "text = []")
    case True
    then show ?thesis by simp
  next
    case False
    then have pos: "0 < length text" by simp
    from windows_last [OF nv pos] obtain st where
      st: "st < length text" "length text \<le> st + n"
        "last (window_starts (length text) n (n - v) 0) = st"
      by blast
    have ne: "window_starts (length text) n (n - v) 0 \<noteq> []"
      using window_starts_Cons [of "length text" n "n - v" 0] by auto
    have "last ?ws = take n (drop st text)"
      using False ne st(3) by (simp add: spec_windows_def last_map)
    also have "\<dots> = drop st text" using st(2) by simp
    finally show ?thesis using st(1) by blast
  qed
  show ?thesis
    using run lens cover lst by (simp add: n_def v_def)
qed

theorem chunkText_trimmed_windows_witness:
  "chunkText (ascii ''a b'') 2 1 = Some [ascii ''a'', ascii ''b'']
   \<and> rebuild 1 (spec_windows (ascii ''a b'') 2 1) = ascii ''a b''
   \<and> last (spec_windows (ascii ''a b'') 2 1) = drop 1 (ascii ''a b'')"
proof -
  have w: "spec_windows (ascii ''a b'') 2 (Suc 0) = [ascii ''a '', ascii '' b'']"
    using spec_windows_a_b by simp
  show ?thesis
    using chunkText_trimmed_windows [of 1 2 "ascii ''a b''"]
    by (simp add: w) (simp add: ascii_def rebuild_def trim_def is_space_def)
qed

section \<open>Text normalizer: tokens, idempotence, dead stopword entries\<close>


lemma split_ws_no_space:
  "\<forall>c\<in>set cur. \<not> is_space c \<Longrightarrow> t \<in> set (split_ws cur s) \<Longrightarrow> \<forall>c\<in>set t. \<not> is_space c"
proof (induction cur s rule: split_ws.induct)
  case (1 cur)
  then show ?case by simp
next
  case (2 cur c cs)
  show ?case
  proof (cases "is_space c")
    case True
    have "split_ws cur (c # cs) = cur # split_ws [] (dropWhile is_space cs)"
      using True by (simp only: split_ws.simps if_True)
    with "2.prems"(2) have "t = cur \<or> t \<in> set (split_ws [] (dropWhile is_space cs))"
      by (simp only: set_simps insert_iff)
    moreover have "\<forall>x\<in>set []. \<not> is_space x" by simp
    ultimately show ?thesis
      using "2.IH"(1) [OF True] "2.prems"(1) by blast
  next
    case False
    have "split_ws cur (c # cs) = split_ws (cur @ [c]) cs"
      using False by (simp only: split_ws.simps if_False)
    with "2.prems"(2) have "t \<in> set (split_ws (cur @ [c]) cs)"
      by (simp only:)
    moreover have "\<forall>x\<in>set (cur @ [c]). \<not> is_space x"
      using "2.prems"(1) False by simp
    ultimately show ?thesis
      using "2.IH"(2) [OF False] by blast
  qed
qed

lemma split_ws_units:
  "t \<in> set (split_ws cur s) \<Longrightarrow> set t \<subseteq> set cur \<union> set s"
proof (induction cur s rule: split_ws.induct)
  case (1 cur)
  then show ?case by simp
next
  case (2 cur c cs)
  show ?case
  proof (cases "is_space c")
    case True
    with 2 show ?thesis
      using set_dropWhileD [of _ is_space cs] by (auto split: if_splits)
  next
    case False
    with 2 show ?thesis by (auto split: if_splits)
  qed
qed

lemma is_space_32: "is_space 32"
  by (simp add: is_space_def)

lemma strip_unit_cases: "is_word_unit (strip_unit x) \<or> is_space (strip_unit x)"
  using is_space_32 by (simp add: strip_unit_def is_word_unit_def)

lemma stripped_units:
  "c \<in> set (stripped l) \<Longrightarrow> is_word_unit c \<or> is_space c"
  using strip_unit_cases by (auto simp: stripped_def)

lemma tokens_of_word:
  assumes "t \<in> set (tokens_of ext s)"
  shows "t \<noteq> [] \<and> (\<forall>c\<in>set t. is_word_unit c \<and> \<not> is_space c)"
proof -
  let ?l = "stripped (toLowerCase ext s)"
  from assms have ne: "t \<noteq> []" and mem: "t \<in> set (split_ws [] ?l)"
    by (simp_all add: tokens_of_def)
  have ns: "\<forall>c\<in>set t. \<not> is_space c"
    using split_ws_no_space [OF _ mem] by simp
  have "set t \<subseteq> set ?l" using split_ws_units [OF mem] by simp
  then have "\<forall>c\<in>set t. is_word_unit c \<or> is_space c"
    using stripped_units by blast
  with ns ne show ?thesis by blast
qed

lemma trim_id:
  "s = [] \<or> (\<not> is_space (hd s) \<and> \<not> is_space (last s)) \<Longrightarrow> trim s = s"
proof (cases s)
  case Nil
  then show ?thesis by (simp add: trim_def)
next
  case (Cons a as)
  assume "s = [] \<or> (\<not> is_space (hd s) \<and> \<not> is_space (last s))"
  with Cons have h: "\<not> is_space a" and l: "\<not> is_space (last s)" by simp_all
  have "dropWhile is_space s = s" using h Cons by simp
  moreover have "dropWhile is_space (rev s) = rev s"
  proof (cases "rev s")
    case Nil
    then show ?thesis by simp
  next
    case (Cons b bs)
    then have "last s = b" by (metis last_rev list.sel(1) rev_rev_ident hd_rev)
    with l Cons show ?thesis by simp
  qed
  ultimately show ?thesis by (simp add: trim_def)
qed


lemma join_hd_last:
  assumes "tks \<noteq> []" and "\<forall>t\<in>set tks. t \<noteq> []"
  shows "join sep tks \<noteq> [] \<and> hd (join sep tks) = hd (hd tks) \<and> last (join sep tks) = last (last tks)"
  using assms
proof (induction sep tks rule: join.induct)
  case (1 sep)
  then show ?case by simp
next
  case (2 sep x)
  then show ?case by simp
next
  case (3 sep x y ys)
  then have ih: "join sep (y # ys) \<noteq> []" "last (join sep (y # ys)) = last (last (y # ys))"
    by simp_all
  from 3 have x: "x \<noteq> []" by simp
  show ?case using x ih by simp
qed

lemma trim_join_tokens:
  assumes "\<forall>t\<in>set tks. t \<noteq> [] \<and> (\<forall>c\<in>set t. \<not> is_space c)"
  shows "trim (join sep tks) = join sep tks"
proof (cases "tks = []")
  case True
  then show ?thesis by (simp add: trim_def)
next
  case False
  with assms have j: "join sep tks \<noteq> []" "hd (join sep tks) = hd (hd tks)"
      "last (join sep tks) = last (last tks)"
    using join_hd_last [of tks sep] by simp_all
  from False assms have "hd tks \<in> set tks" "last tks \<in> set tks" by simp_all
  with assms have "hd tks \<noteq> []" "last tks \<noteq> []"
      "\<forall>c\<in>set (hd tks). \<not> is_space c" "\<forall>c\<in>set (last tks). \<not> is_space c"
    by blast+
  then have "\<not> is_space (hd (hd tks))" "\<not> is_space (last (last tks))"
    by simp_all
  with j show ?thesis by (intro trim_id) simp
qed

lemma split_ws_append:
  "\<forall>c\<in>set t. \<not> is_space c \<Longrightarrow> split_ws cur (t @ rest) = split_ws (cur @ t) rest"
proof (induction t arbitrary: cur)
  case Nil
  then show ?case by simp
next
  case (Cons a t)
  then have a: "\<not> is_space a" and t: "\<forall>c\<in>set t. \<not> is_space c" by simp_all
  have "split_ws cur ((a # t) @ rest) = split_ws (cur @ [a]) (t @ rest)"
    using a by (simp only: append_Cons split_ws.simps if_False)
  also have "\<dots> = split_ws ((cur @ [a]) @ t) rest"
    by (rule Cons.IH [OF t])
  finally show ?case by simp
qed

lemma split_ws_join:
  assumes "tks \<noteq> []" and "\<forall>t\<in>set tks. t \<noteq> [] \<and> (\<forall>c\<in>set t. \<not> is_space c)"
  shows "split_ws cur (join [32] tks) = (cur @ hd tks) # tl tks"
  using assms
proof (induction tks arbitrary: cur)
  case Nil
  then show ?case by simp
next
  case (Cons x tks)
  then have x: "\<forall>c\<in>set x. \<not> is_space c" by simp
  show ?case
  proof (cases tks)
    case Nil
    have "split_ws cur (x @ []) = split_ws (cur @ x) []"
      by (rule split_ws_append [OF x])
    with Nil show ?thesis by (simp add: split_ws.simps(1))
  next
    case (Cons y ys)
    let ?r = "join [32] (y # ys)"
    have toks: "\<forall>t\<in>set (y # ys). t \<noteq> [] \<and> (\<forall>c\<in>set t. \<not> is_space c)"
      using Cons.prems(2) Cons by simp
    have r: "?r \<noteq> []" "hd ?r = hd y"
      using join_hd_last [of "y # ys" "[32]"] toks by simp_all
    from toks have "y \<noteq> []" "\<not> is_space (hd y)" by simp_all
    with r have dw: "dropWhile is_space ?r = ?r"
      by (cases ?r) simp_all
    have "split_ws cur (join [32] (x # y # ys)) = split_ws cur (x @ (32 # ?r))"
      by simp
    also have "\<dots> = split_ws (cur @ x) (32 # ?r)"
      by (rule split_ws_append [OF x])
    also have "\<dots> = (cur @ x) # split_ws [] (dropWhile is_space ?r)"
      using is_space_32 by (simp only: split_ws.simps if_True)
    also have "\<dots> = (cur @ x) # split_ws [] ?r"
      by (simp only: dw)
    also have "split_ws [] ?r = ([] @ hd (y # ys)) # tl (y # ys)"
      using Cons.IH [of "[]"] toks Cons by simp
    finally show ?thesis using Cons by simp
  qed
qed

lemma toLowerCase_fixed:
  assumes "caseless_devanagari ext" and "\<forall>c\<in>set s. is_word_unit c \<or> c = 32"
  shows "toLowerCase ext s = s"
proof -
  have u: "lower_unit ext c = [c]" if "is_word_unit c \<or> c = 32" for c
  proof (cases "is_devanagari c")
    case True
    then have "2304 \<le> c \<and> c < 2432" by (simp add: is_devanagari_def)
    then have "c \<in> set [2304 ..< 2432]" by (simp only: set_upt atLeastLessThan_iff)
    with assms(1) have "ext c = [c]"
      unfolding caseless_devanagari_def list_all_iff by blast
    with True show ?thesis by (simp add: lower_unit_def is_devanagari_def)
  next
    case False
    with that have "is_lower_alnum c \<or> c = 32" by (simp add: is_word_unit_def)
    then show ?thesis by (auto simp: lower_unit_def is_lower_alnum_def)
  qed
  show ?thesis
    using assms(2) unfolding toLowerCase_def
  proof (induction s)
    case Nil
    then show ?case by simp
  next
    case (Cons a s)
    then show ?case using u [of a] by simp
  qed
qed

lemma stripped_fixed:
  assumes "\<forall>c\<in>set s. is_word_unit c \<or> c = 32"
  shows "stripped s = s"
proof -
  have "strip_unit c = c" if "is_word_unit c \<or> c = 32" for c
    using that is_space_32 by (auto simp: strip_unit_def is_word_unit_def)
  with assms show ?thesis
    unfolding stripped_def by (induction s) simp_all
qed

lemma join_units:
  "c \<in> set (join sep tks) \<Longrightarrow> c \<in> set sep \<or> (\<exists>t\<in>set tks. c \<in> set t)"
  by (induction sep tks rule: join.induct) auto

lemma kept_tokens_word:
  "t \<in> set (kept_tokens ext s) \<Longrightarrow> t \<noteq> [] \<and> (\<forall>c\<in>set t. is_word_unit c \<and> \<not> is_space c)"
  using tokens_of_word [of t ext s] by (simp add: kept_tokens_def)

lemma tokens_of_join:
  assumes ext: "caseless_devanagari ext"
    and toks: "\<forall>t\<in>set tks. t \<noteq> [] \<and> (\<forall>c\<in>set t. is_word_unit c \<and> \<not> is_space c)"
  shows "tokens_of ext (join [32] tks) = tks"
proof (cases "tks = []")
  case True
  then show ?thesis
    by (simp add: tokens_of_def toLowerCase_def stripped_def split_ws.simps(1))
next
  case False
  let ?r = "join [32] tks"
  have units: "\<forall>c\<in>set ?r. is_word_unit c \<or> c = 32"
    using join_units [of _ "[32]" tks] toks by auto
  have low: "toLowerCase ext ?r = ?r" by (rule toLowerCase_fixed [OF ext units])
  have str: "stripped ?r = ?r" by (rule stripped_fixed [OF units])
  have "split_ws [] ?r = ([] @ hd tks) # tl tks"
    using False toks by (intro split_ws_join) auto
  with False have sp: "split_ws [] ?r = tks" by simp
  have "filter (\<lambda>t. t \<noteq> []) tks = tks"
    using toks by (simp add: filter_id_conv)
  then show ?thesis by (simp add: tokens_of_def low str sp)
qed

lemma cleanForEmbedding_join:
  "s \<noteq> [] \<Longrightarrow> cleanForEmbedding ext s = join [32] (kept_tokens ext s)"
proof -
  assume "s \<noteq> []"
  have "trim (join [32] (kept_tokens ext s)) = join [32] (kept_tokens ext s)"
    using kept_tokens_word [of _ ext s] by (intro trim_join_tokens) blast
  with \<open>s \<noteq> []\<close> show ?thesis by (simp add: cleanForEmbedding_def ascii_def)
qed

lemma cleanForEmbedding_idem:
  assumes "caseless_devanagari ext"
  shows "cleanForEmbedding ext (cleanForEmbedding ext x) = cleanForEmbedding ext x"
proof (cases "cleanForEmbedding ext x = []")
  case True
  then show ?thesis by (simp add: cleanForEmbedding_def)
next
  case False
  then have x: "x \<noteq> []" by (auto simp: cleanForEmbedding_def)
  let ?K = "kept_tokens ext x"
  have r: "cleanForEmbedding ext x = join [32] ?K" by (rule cleanForEmbedding_join [OF x])
  have toks: "\<forall>t\<in>set ?K. t \<noteq> [] \<and> (\<forall>c\<in>set t. is_word_unit c \<and> \<not> is_space c)"
    using kept_tokens_word by blast
  have t2: "tokens_of ext (join [32] ?K) = ?K" by (rule tokens_of_join [OF assms toks])
  have "kept_tokens ext (join [32] ?K) = filter keep_token (tokens_of ext (join [32] ?K))"
    by (simp only: kept_tokens_def)
  also have "\<dots> = filter keep_token ?K"
    by (simp only: t2)
  also have "\<dots> = ?K" by (simp add: kept_tokens_def)
  finally have k2: "kept_tokens ext (join [32] ?K) = ?K" .
  have "cleanForEmbedding ext (join [32] ?K) = join [32] (kept_tokens ext (join [32] ?K))"
    using False r by (intro cleanForEmbedding_join) simp
  then show ?thesis by (simp add: r k2)
qed


lemmas clean_eval_defs = stripped_def strip_unit_def toLowerCase_def lower_unit_def
  is_lower_alnum_def is_devanagari_def is_space_def trim_def ascii_def

lemma tokens_of_example:
  "tokens_of ext (ascii ''HCA is a great solution for automation'') =
     [ascii ''hca'', ascii ''is'', ascii ''a'', ascii ''great'', ascii ''solution'',
      ascii ''for'', ascii ''automation'']"
  by (simp add: tokens_of_def clean_eval_defs)

lemma cleanForEmbedding_example:
  "cleanForEmbedding ext (ascii ''HCA is a great solution for automation'') =
     ascii ''hca great solution automation''"
  unfolding cleanForEmbedding_def kept_tokens_def tokens_of_example
  by (simp add: keep_token_def PROTECTED_TOKENS_def EN_STOPWORDS_def HINGLISH_STOPWORDS_def
      HINDI_STOPWORDS_def ascii_def trim_def is_space_def)

lemma caseless_devanagari_id: "caseless_devanagari (\<lambda>c. [c])"
  by (simp add: caseless_devanagari_def list_all_iff)

text \<open>
  C5. The cleaner is idempotent, for every string, given that the case table of the
  runtime leaves the Devanagari code units as they are. Every protected token among the
  tokens of the lower-cased, stripped input is kept by the filter, whatever the
  stopword lists hold, and is a token of the cleaned text. The example of the
  specification evaluates as stated.
\<close>

theorem cleanForEmbedding_idempotent_protected:
  assumes "caseless_devanagari ext"
  shows "cleanForEmbedding ext (cleanForEmbedding ext x) = cleanForEmbedding ext x
    \<and> (\<forall>t. t \<in> set PROTECTED_TOKENS \<and> t \<in> set (tokens_of ext x) \<longrightarrow>
           keep_token t \<and> t \<in> set (kept_tokens ext x)
           \<and> t \<in> set (tokens_of ext (cleanForEmbedding ext x)))
    \<and> cleanForEmbedding ext (ascii ''HCA is a great solution for automation'') =
         ascii ''hca great solution automation''"
proof -
  have prot: "keep_token t \<and> t \<in> set (kept_tokens ext x)
      \<and> t \<in> set (tokens_of ext (cleanForEmbedding ext x))"
    if p: "t \<in> set PROTECTED_TOKENS" and m: "t \<in> set (tokens_of ext x)" for t
  proof -
    have k: "keep_token t" using p by (simp only: keep_token_def if_True)
    with m have kt: "t \<in> set (kept_tokens ext x)" by (simp add: kept_tokens_def)
    have "x \<noteq> []"
    proof
      assume "x = []"
      with m show False
        by (simp add: tokens_of_def toLowerCase_def stripped_def)
    qed
    then have "cleanForEmbedding ext x = join [32] (kept_tokens ext x)"
      by (rule cleanForEmbedding_join)
    moreover have "tokens_of ext (join [32] (kept_tokens ext x)) = kept_tokens ext x"
      using kept_tokens_word by (intro tokens_of_join [OF assms]) blast
    ultimately show ?thesis using k kt by simp
  qed
  show ?thesis
    using cleanForEmbedding_idem [OF assms, of x] prot cleanForEmbedding_example [of ext]
    by blast
qed

theorem cleanForEmbedding_idempotent_protected_witness:
  "caseless_devanagari (\<lambda>c. [c])
   \<and> ascii ''hca'' \<in> set PROTECTED_TOKENS
   \<and> ascii ''hca'' \<in> set (tokens_of (\<lambda>c. [c]) (ascii ''HCA is a great solution for automation''))
   \<and> ascii ''hca'' \<in> set (kept_tokens (\<lambda>c. [c]) (ascii ''HCA is a great solution for automation''))
   \<and> cleanForEmbedding (\<lambda>c. [c]) (ascii ''hca great solution automation'') =
        ascii ''hca great solution automation''"
proof -
  let ?x = "ascii ''HCA is a great solution for automation''"
  have p: "ascii ''hca'' \<in> set PROTECTED_TOKENS"
    by (simp add: PROTECTED_TOKENS_def)
  have m: "ascii ''hca'' \<in> set (tokens_of (\<lambda>c. [c]) ?x)"
    unfolding tokens_of_example by simp
  note t = cleanForEmbedding_idempotent_protected [OF caseless_devanagari_id, of ?x]
  from t have "cleanForEmbedding (\<lambda>c. [c]) (ascii ''hca great solution automation'') =
      ascii ''hca great solution automation''"
    by (simp only: cleanForEmbedding_example)
  moreover from t p m have "ascii ''hca'' \<in> set (kept_tokens (\<lambda>c. [c]) ?x)"
    by blast
  ultimately show ?thesis
    using caseless_devanagari_id p m by blast
qed

lemma multi_word_has_space: "m \<in> set MULTI_WORD_STOPWORDS \<Longrightarrow> 32 \<in> set m"
  by (auto simp: MULTI_WORD_STOPWORDS_def ascii_def)

lemma multi_word_entries:
  "set MULTI_WORD_STOPWORDS \<subseteq> set HINGLISH_STOPWORDS \<union> set HINDI_STOPWORDS"
  by (simp add: MULTI_WORD_STOPWORDS_def HINGLISH_STOPWORDS_def HINDI_STOPWORDS_def)

lemma token_not_multi_word:
  assumes "t \<in> set (tokens_of ext s)"
  shows "t \<notin> set MULTI_WORD_STOPWORDS"
proof
  assume "t \<in> set MULTI_WORD_STOPWORDS"
  then have "32 \<in> set t" by (rule multi_word_has_space)
  moreover have "\<forall>c\<in>set t. \<not> is_space c"
    using tokens_of_word [OF assms] by blast
  ultimately show False using is_space_32 by blast
qed

text \<open>
  C10. The entries of more than one word are entries of the Hinglish and Hindi sets, no
  token equals one of them, and the cleaner whose two sets are without them is the
  same function.
\<close>

theorem multi_word_stopwords_dead:
  "set MULTI_WORD_STOPWORDS \<subseteq> set HINGLISH_STOPWORDS \<union> set HINDI_STOPWORDS
   \<and> (\<forall>t\<in>set (tokens_of ext s). t \<notin> set MULTI_WORD_STOPWORDS)
   \<and> cleanForEmbedding_single = cleanForEmbedding"
proof -
  have same: "keep_token_single t = keep_token t" if "t \<in> set (tokens_of e x)" for t e x
    using token_not_multi_word [OF that]
    by (simp add: keep_token_single_def keep_token_def)
  have "cleanForEmbedding_single e x = cleanForEmbedding e x" for e x
  proof -
    have "filter keep_token_single (tokens_of e x) = filter keep_token (tokens_of e x)"
      using same by (intro filter_cong) auto
    then show ?thesis
      by (simp add: cleanForEmbedding_single_def cleanForEmbedding_def kept_tokens_def)
  qed
  then have "cleanForEmbedding_single = cleanForEmbedding" by (intro ext)
  with multi_word_entries token_not_multi_word show ?thesis by blast
qed

lemma tokens_of_ho_gya:
  "tokens_of (\<lambda>c. [c]) (ascii ''machine ho gya'') = [ascii ''machine'', ascii ''ho'', ascii ''gya'']"
  by (simp add: tokens_of_def clean_eval_defs)

theorem multi_word_stopwords_dead_witness:
  "tokens_of (\<lambda>c. [c]) (ascii ''machine ho gya'') = [ascii ''machine'', ascii ''ho'', ascii ''gya'']
   \<and> ascii ''ho gya'' \<in> set MULTI_WORD_STOPWORDS
   \<and> ascii ''ho'' \<notin> set MULTI_WORD_STOPWORDS
   \<and> ascii ''gya'' \<notin> set MULTI_WORD_STOPWORDS
   \<and> cleanForEmbedding_single (\<lambda>c. [c]) (ascii ''machine ho gya'') =
        cleanForEmbedding (\<lambda>c. [c]) (ascii ''machine ho gya'')"
proof -
  note t = multi_word_stopwords_dead [of "\<lambda>c. [c]" "ascii ''machine ho gya''"]
  have "ascii ''ho gya'' \<in> set MULTI_WORD_STOPWORDS"
    by (simp add: MULTI_WORD_STOPWORDS_def)
  moreover from t have "ascii ''ho'' \<notin> set MULTI_WORD_STOPWORDS"
      "ascii ''gya'' \<notin> set MULTI_WORD_STOPWORDS"
    unfolding tokens_of_ho_gya by simp_all
  moreover from t have "cleanForEmbedding_single (\<lambda>c. [c]) (ascii ''machine ho gya'') =
      cleanForEmbedding (\<lambda>c. [c]) (ascii ''machine ho gya'')"
    by simp
  ultimately show ?thesis using tokens_of_ho_gya by simp
qed

section \<open>Language mode: marker words as tokens between spaces\<close>


lemma marker_hit_bounded: "marker_hit text t \<longleftrightarrow> bounded_occ t text"
proof
  assume "marker_hit text t"
  then consider (a) ps ss where "text = ps @ ([32] @ t @ [32]) @ ss"
    | (b) zs where "text = (t @ [32]) @ zs"
    | (c) zs where "text = zs @ ([32] @ t)"
    | (d) "text = t"
    unfolding marker_hit_def sublist_def prefix_def suffix_def ascii_def by auto
  then show "bounded_occ t text"
  proof cases
    case a
    then have "text = (ps @ [32]) @ t @ (32 # ss)" by simp
    then show ?thesis unfolding bounded_occ_def by (metis last_snoc list.sel(1))
  next
    case b
    then have "text = [] @ t @ (32 # zs)" by simp
    then show ?thesis unfolding bounded_occ_def by (metis list.sel(1))
  next
    case c
    then have "text = (zs @ [32]) @ t @ []" by simp
    then show ?thesis unfolding bounded_occ_def by (metis last_snoc)
  next
    case d
    then have "text = [] @ t @ []" by simp
    then show ?thesis unfolding bounded_occ_def by blast
  qed
next
  assume "bounded_occ t text"
  then obtain pre post where tx: "text = pre @ t @ post"
    and pre: "pre = [] \<or> last pre = 32" and post: "post = [] \<or> hd post = 32"
    unfolding bounded_occ_def by blast
  have pre': "pre = [] \<or> (\<exists>ps. pre = ps @ [32])"
    using pre by (metis append_butlast_last_id)
  have post': "post = [] \<or> (\<exists>ss. post = 32 # ss)"
    using post by (metis list.collapse)
  from pre' post' show "marker_hit text t"
  proof (elim disjE exE)
    assume "pre = []" "post = []"
    with tx show ?thesis by (simp add: marker_hit_def)
  next
    fix ss assume "pre = []" "post = 32 # ss"
    with tx have "prefix (t @ [32]) text" by (simp add: prefix_def)
    then show ?thesis by (simp add: marker_hit_def ascii_def)
  next
    fix ps assume "pre = ps @ [32]" "post = []"
    with tx have "suffix ([32] @ t) text" by (simp add: suffix_def)
    then show ?thesis by (simp add: marker_hit_def ascii_def)
  next
    fix ps ss assume "pre = ps @ [32]" "post = 32 # ss"
    with tx have "text = ps @ ([32] @ t @ [32]) @ ss" by simp
    then have "sublist ([32] @ t @ [32]) text" unfolding sublist_def by blast
    then show ?thesis by (simp add: marker_hit_def ascii_def)
  qed
qed

lemma free_prefix_unique:
  assumes "32 \<notin> set cur" "32 \<notin> set t" "cur @ rest = t @ post"
    and "post = [] \<or> hd post = 32" and "rest = [] \<or> hd rest = 32"
  shows "t = cur"
proof -
  from assms(3) obtain us where
    "(cur = t @ us \<and> us @ rest = post) \<or> (cur @ us = t \<and> rest = us @ post)"
    by (auto simp: append_eq_append_conv2)
  then show ?thesis
  proof
    assume h: "cur = t @ us \<and> us @ rest = post"
    show ?thesis
    proof (cases us)
      case Nil
      with h show ?thesis by simp
    next
      case (Cons u us')
      with h have "hd post = u" "post \<noteq> []" "u \<in> set cur" by auto
      with assms(1,4) show ?thesis by auto
    qed
  next
    assume h: "cur @ us = t \<and> rest = us @ post"
    show ?thesis
    proof (cases us)
      case Nil
      with h show ?thesis by simp
    next
      case (Cons u us')
      with h have "hd rest = u" "rest \<noteq> []" "u \<in> set t" by auto
      with assms(2,5) show ?thesis by auto
    qed
  qed
qed

lemma split_sp_iff:
  assumes t: "32 \<notin> set t"
  shows "32 \<notin> set cur \<Longrightarrow> t \<in> set (split_sp cur str) \<longleftrightarrow>
     (\<exists>post. cur @ str = t @ post \<and> (post = [] \<or> hd post = 32))
     \<or> (\<exists>pre post. str = pre @ t @ post \<and> pre \<noteq> [] \<and> last pre = 32 \<and> (post = [] \<or> hd post = 32))"
proof (induction str arbitrary: cur)
  case Nil
  have "(\<exists>post. cur @ [] = t @ post \<and> (post = [] \<or> hd post = 32)) \<longleftrightarrow> t = cur"
  proof
    assume "\<exists>post. cur @ [] = t @ post \<and> (post = [] \<or> hd post = 32)"
    then obtain post where "cur @ [] = t @ post" "post = [] \<or> hd post = 32" by blast
    then show "t = cur" using free_prefix_unique [OF Nil t] by blast
  next
    assume "t = cur"
    then show "\<exists>post. cur @ [] = t @ post \<and> (post = [] \<or> hd post = 32)" by simp
  qed
  then show ?case by simp
next
  case (Cons c cs)
  let ?P = "\<lambda>post. post = [] \<or> hd post = (32::nat)"
  show ?case
  proof (cases "c = 32")
    case True
    have A: "(\<exists>post. cur @ c # cs = t @ post \<and> ?P post) \<longleftrightarrow> t = cur"
    proof
      assume "\<exists>post. cur @ c # cs = t @ post \<and> ?P post"
      then obtain post where "cur @ c # cs = t @ post" "?P post" by blast
      then show "t = cur" using free_prefix_unique [OF Cons.prems t, of "c # cs" post] True by simp
    next
      assume "t = cur"
      then have "cur @ c # cs = t @ (c # cs) \<and> ?P (c # cs)" using True by simp
      then show "\<exists>post. cur @ c # cs = t @ post \<and> ?P post" by blast
    qed
    have B: "(\<exists>pre post. c # cs = pre @ t @ post \<and> pre \<noteq> [] \<and> last pre = 32 \<and> ?P post) \<longleftrightarrow>
        (\<exists>post. [] @ cs = t @ post \<and> ?P post)
        \<or> (\<exists>pre post. cs = pre @ t @ post \<and> pre \<noteq> [] \<and> last pre = 32 \<and> ?P post)"
      (is "?L \<longleftrightarrow> ?R1 \<or> ?R2")
    proof
      assume ?L
      then obtain pre post where h: "c # cs = pre @ t @ post" "pre \<noteq> []" "last pre = 32" "?P post"
        by blast
      then obtain pre' where p: "pre = c # pre'" by (cases pre) auto
      with h have cs: "cs = pre' @ t @ post" by simp
      show "?R1 \<or> ?R2"
      proof (cases "pre' = []")
        case True
        with cs h(4) show ?thesis by auto
      next
        case False
        with p h(3) have "last pre' = 32" by simp
        with False cs h(4) show ?thesis by blast
      qed
    next
      assume "?R1 \<or> ?R2"
      then show ?L
      proof
        assume ?R1
        then obtain post where "cs = t @ post" "?P post" by auto
        then have "c # cs = [c] @ t @ post \<and> [c] \<noteq> [] \<and> last [c] = 32 \<and> ?P post"
          using True by simp
        then show ?L by blast
      next
        assume ?R2
        then obtain pre post where "cs = pre @ t @ post" "pre \<noteq> []" "last pre = 32" "?P post"
          by blast
        then have "c # cs = (c # pre) @ t @ post \<and> c # pre \<noteq> [] \<and> last (c # pre) = 32 \<and> ?P post"
          by simp
        then show ?L by blast
      qed
    qed
    have "t \<in> set (split_sp cur (c # cs)) \<longleftrightarrow> t = cur \<or> t \<in> set (split_sp [] cs)"
      using True by auto
    also have "t \<in> set (split_sp [] cs) \<longleftrightarrow>
        (\<exists>post. [] @ cs = t @ post \<and> ?P post)
        \<or> (\<exists>pre post. cs = pre @ t @ post \<and> pre \<noteq> [] \<and> last pre = 32 \<and> ?P post)"
      by (rule Cons.IH) simp
    finally show ?thesis unfolding A B .
  next
    case False
    have B: "(\<exists>pre post. c # cs = pre @ t @ post \<and> pre \<noteq> [] \<and> last pre = 32 \<and> ?P post) \<longleftrightarrow>
        (\<exists>pre post. cs = pre @ t @ post \<and> pre \<noteq> [] \<and> last pre = 32 \<and> ?P post)"
      (is "?L \<longleftrightarrow> ?R")
    proof
      assume ?L
      then obtain pre post where h: "c # cs = pre @ t @ post" "pre \<noteq> []" "last pre = 32" "?P post"
        by blast
      then obtain pre' where p: "pre = c # pre'" by (cases pre) auto
      with h have cs: "cs = pre' @ t @ post" by simp
      from p h(3) False have ne: "pre' \<noteq> []" by auto
      with p h(3) have "last pre' = 32" by simp
      with ne cs h(4) show ?R by blast
    next
      assume ?R
      then obtain pre post where "cs = pre @ t @ post" "pre \<noteq> []" "last pre = 32" "?P post"
        by blast
      then have "c # cs = (c # pre) @ t @ post \<and> c # pre \<noteq> [] \<and> last (c # pre) = 32 \<and> ?P post"
        by simp
      then show ?L by blast
    qed
    have c: "32 \<notin> set (cur @ [c])" using Cons.prems False by simp
    have "t \<in> set (split_sp cur (c # cs)) \<longleftrightarrow> t \<in> set (split_sp (cur @ [c]) cs)"
      using False by simp
    also have "\<dots> \<longleftrightarrow> (\<exists>post. (cur @ [c]) @ cs = t @ post \<and> ?P post)
        \<or> (\<exists>pre post. cs = pre @ t @ post \<and> pre \<noteq> [] \<and> last pre = 32 \<and> ?P post)"
      by (rule Cons.IH [OF c])
    finally show ?thesis unfolding B by simp
  qed
qed

lemma marker_hit_split_sp:
  assumes "32 \<notin> set t"
  shows "marker_hit str t \<longleftrightarrow> t \<in> set (split_sp [] str)"
proof -
  have "t \<in> set (split_sp [] str) \<longleftrightarrow>
     (\<exists>post. [] @ str = t @ post \<and> (post = [] \<or> hd post = 32))
     \<or> (\<exists>pre post. str = pre @ t @ post \<and> pre \<noteq> [] \<and> last pre = 32 \<and> (post = [] \<or> hd post = 32))"
    by (rule split_sp_iff [OF assms]) simp
  also have "\<dots> \<longleftrightarrow> bounded_occ t str"
    unfolding bounded_occ_def by (metis append_Nil)
  finally show ?thesis by (simp add: marker_hit_bounded)
qed

lemma fold_count:
  "fold (\<lambda>t score. if P t then score + 1 else score) xs (a::real) = a + real (length (filter P xs))"
  by (induction xs arbitrary: a) simp_all



lemma hinglishTokens_no_space: "t \<in> set hinglishTokens \<Longrightarrow> 32 \<notin> set t"
  by (auto simp: hinglishTokens_def ascii_def)

lemma marker_score_count:
  "marker_score str = real (length (filter (\<lambda>t. t \<in> set (split_sp [] str)) hinglishTokens))"
proof -
  have "filter (marker_hit str) hinglishTokens = filter (\<lambda>t. t \<in> set (split_sp [] str)) hinglishTokens"
    using hinglishTokens_no_space marker_hit_split_sp by (intro filter_cong) auto
  then show ?thesis by (simp add: marker_score_def fold_count)
qed

lemma lower_unit_devanagari:
  assumes "devanagari_stable ext"
  shows "list_ex is_devanagari (lower_unit ext c) = is_devanagari c"
proof (cases "c < 128")
  case True
  then show ?thesis by (auto simp: lower_unit_def is_devanagari_def)
next
  case False
  with assms show ?thesis by (simp add: lower_unit_def devanagari_stable_def)
qed

lemma toLowerCase_devanagari:
  assumes "devanagari_stable ext"
  shows "list_ex is_devanagari (toLowerCase ext q) = list_ex is_devanagari q"
  using lower_unit_devanagari [OF assms]
  by (induction q) (simp_all add: toLowerCase_def)

lemma detect_eq_spec:
  assumes "devanagari_stable ext"
  shows "detectResponseMode ext q = spec_detectMode (split_sp []) ext q"
  by (simp add: detectResponseMode_def spec_detectMode_def Let_def
      toLowerCase_devanagari [OF assms] marker_score_count)

lemma lower_ascii_hai_kya: "toLowerCase ext (ascii ''hai kya'') = ascii ''hai kya''"
  by (simp add: toLowerCase_def lower_unit_def ascii_def)

lemma ex_hai_kya: "detectResponseMode ext (ascii ''hai kya'') = Hinglish"
  unfolding detectResponseMode_def Let_def marker_score_count lower_ascii_hai_kya
  by (simp add: ascii_def is_devanagari_def hinglishTokens_def)

lemma lower_ascii_price: "toLowerCase ext (ascii ''what is your price'') = ascii ''what is your price''"
  by (simp add: toLowerCase_def lower_unit_def ascii_def)

lemma no_cue_price: "\<not> has_chat_cue (ascii ''what is your price'')"
  by (simp add: has_chat_cue_def ascii_def is_cue_punct_def sublist_code prefix_code)

lemma ex_price: "detectResponseMode ext (ascii ''what is your price'') = English"
  unfolding detectResponseMode_def Let_def marker_score_count lower_ascii_price
  using no_cue_price
  by (simp add: ascii_def is_devanagari_def hinglishTokens_def)

lemma lower_tab: "toLowerCase ext (ascii ''hai'' @ [9] @ ascii ''kya'') = ascii ''hai'' @ [9] @ ascii ''kya''"
  by (simp add: toLowerCase_def lower_unit_def ascii_def)

lemma no_cue_tab: "\<not> has_chat_cue (ascii ''hai'' @ [9] @ ascii ''kya'')"
  by (simp add: has_chat_cue_def ascii_def is_cue_punct_def sublist_code prefix_code)

lemma ex_tab: "detectResponseMode ext (ascii ''hai'' @ [9] @ ascii ''kya'') = English"
  unfolding detectResponseMode_def Let_def marker_score_count lower_tab
  using no_cue_tab
  by (simp add: ascii_def is_devanagari_def hinglishTokens_def)

lemma ws_tokens_tab: "ws_tokens (ascii ''hai'' @ [9] @ ascii ''kya'') = [ascii ''hai'', ascii ''kya'']"
  by (simp add: ws_tokens_def ascii_def is_space_def)

lemma spec_tab: "spec_detectMode ws_tokens ext (ascii ''hai'' @ [9] @ ascii ''kya'') = Hinglish"
  unfolding spec_detectMode_def Let_def lower_tab ws_tokens_tab
  by (simp add: ascii_def is_devanagari_def hinglishTokens_def)


lemma devanagari_stable_id: "devanagari_stable (\<lambda>c. [c])"
  by (simp add: devanagari_stable_def)

text \<open>
  C4, as stated, fails: a marker word counts only with a space character (U+0020) or a
  string edge on each side. In "hai<TAB>kya" the two marker words stand alone between
  whitespace, so the specification's detector answers hinglish; the code finds no
  marker word and answers english.
\<close>

theorem detectResponseMode_whitespace_counterexample:
  "detectResponseMode (\<lambda>c. [c]) (ascii ''hai'' @ [9] @ ascii ''kya'') = English
   \<and> ws_tokens (ascii ''hai'' @ [9] @ ascii ''kya'') = [ascii ''hai'', ascii ''kya'']
   \<and> spec_detectMode ws_tokens (\<lambda>c. [c]) (ascii ''hai'' @ [9] @ ascii ''kya'') = Hinglish"
  using ex_tab [of "\<lambda>c. [c]"] ws_tokens_tab spec_tab [of "\<lambda>c. [c]"] by simp

text \<open>
  C4, amended. detectResponseMode is a function of its input (and of the case table of
  the runtime, of which only what Unicode says of Devanagari is assumed). An input with
  a Devanagari code unit gives hinglish. Otherwise the score is the number of marker
  words of the fixed list that are one of the pieces of the lower-cased text between
  space characters (U+0020; a tab or a newline does not delimit), plus 0.5 when the
  text has a chat cue, and the answer is hinglish exactly when the score is at least 2.
  "hai kya" gives hinglish and "what is your price" gives english.
\<close>

theorem detectResponseMode_space_tokens:
  assumes "devanagari_stable ext"
  shows "detectResponseMode ext q = spec_detectMode (split_sp []) ext q
    \<and> (list_ex is_devanagari q \<longrightarrow> detectResponseMode ext q = Hinglish)
    \<and> (\<forall>t\<in>set hinglishTokens. \<forall>str. marker_hit str t \<longleftrightarrow> t \<in> set (split_sp [] str))
    \<and> detectResponseMode ext (ascii ''hai kya'') = Hinglish
    \<and> detectResponseMode ext (ascii ''what is your price'') = English"
proof -
  have eq: "detectResponseMode ext q = spec_detectMode (split_sp []) ext q"
    by (rule detect_eq_spec [OF assms])
  have dev: "list_ex is_devanagari q \<longrightarrow> detectResponseMode ext q = Hinglish"
    by (simp add: eq spec_detectMode_def)
  have hit: "\<forall>t\<in>set hinglishTokens. \<forall>str. marker_hit str t \<longleftrightarrow> t \<in> set (split_sp [] str)"
    using hinglishTokens_no_space marker_hit_split_sp by blast
  show ?thesis
    using eq dev hit ex_hai_kya [of ext] ex_price [of ext] by blast
qed

theorem detectResponseMode_space_tokens_witness:
  "devanagari_stable (\<lambda>c. [c])
   \<and> list_ex is_devanagari [2325, 2381, 2351, 2366]
   \<and> detectResponseMode (\<lambda>c. [c]) [2325, 2381, 2351, 2366] = Hinglish
   \<and> ascii ''kya'' \<in> set hinglishTokens
   \<and> marker_hit (ascii ''kya hai'') (ascii ''kya'')
   \<and> detectResponseMode (\<lambda>c. [c]) (ascii ''hai kya'') =
        spec_detectMode (split_sp []) (\<lambda>c. [c]) (ascii ''hai kya'')"
proof -
  note t = detectResponseMode_space_tokens [OF devanagari_stable_id]
  have d: "list_ex is_devanagari [2325, 2381, 2351, 2366]"
    by (simp add: is_devanagari_def)
  with t [of "[2325, 2381, 2351, 2366]"]
  have h: "detectResponseMode (\<lambda>c. [c]) [2325, 2381, 2351, 2366] = Hinglish"
    by blast
  have k: "ascii ''kya'' \<in> set hinglishTokens"
    by (simp add: hinglishTokens_def)
  have "ascii ''kya'' \<in> set (split_sp [] (ascii ''kya hai''))"
    by (simp add: ascii_def)
  with t [of "[]"] k have m: "marker_hit (ascii ''kya hai'') (ascii ''kya'')"
    by blast
  from t [of "ascii ''hai kya''"] have
    "detectResponseMode (\<lambda>c. [c]) (ascii ''hai kya'') =
      spec_detectMode (split_sp []) (\<lambda>c. [c]) (ascii ''hai kya'')"
    by blast
  with devanagari_stable_id d h k m show ?thesis by blast
qed

section \<open>IEEE arithmetic and cosine similarity: properties\<close>

lemma pow2_pos: "0 < pow2 k"
  by (simp add: pow2_def)

lemma pow2_powr: "pow2 k = 2 powr real_of_int k"
  by (simp add: pow2_def powr_realpow [symmetric] powr_minus divide_inverse)

lemma pow2_add: "pow2 (j + k) = pow2 j * pow2 k"
  by (simp add: pow2_powr powr_add)

lemma pow2_mono: "j \<le> k \<Longrightarrow> pow2 j \<le> pow2 k"
  by (simp add: pow2_powr)

lemma find_upto:
  assumes "i \<le> k" "k \<le> j" "P k" "\<And>m. i \<le> m \<Longrightarrow> m < k \<Longrightarrow> \<not> P m"
  shows "find P [i .. j] = Some k"
  using assms
proof (induction "nat (k - i)" arbitrary: i)
  case 0
  then have "i = k" by simp
  with 0 show ?case by (simp add: upto_rec1 [of k j])
next
  case (Suc n)
  then have lt: "i < k" by linarith
  with Suc.prems have "\<not> P i" by simp
  moreover have "find P [i + 1 .. j] = Some k"
    using Suc.hyps(2) Suc.prems lt by (intro Suc.hyps(1)) auto
  ultimately show ?case using lt Suc.prems by (simp add: upto_rec1 [of i j])
qed

lemma binade_eq:
  assumes "- 1022 \<le> k" "k \<le> 1023" "pow2 k \<le> \<bar>x\<bar>" "\<bar>x\<bar> < pow2 (k + 1)"
  shows "binade x = k"
proof -
  have "find (\<lambda>k. \<bar>x\<bar> < pow2 (k + 1)) [- 1022 .. 1023] = Some k"
  proof (rule find_upto)
    fix m :: int assume "- 1022 \<le> m" "m < k"
    then have "pow2 (m + 1) \<le> pow2 k" by (intro pow2_mono) simp
    with assms(3) show "\<not> \<bar>x\<bar> < pow2 (m + 1)" by simp
  qed (use assms in auto)
  then show ?thesis by (simp add: binade_def)
qed

lemma binade_small:
  assumes "\<bar>x\<bar> < pow2 (- 1021)"
  shows "binade x = - 1022"
proof -
  have "find (\<lambda>k. \<bar>x\<bar> < pow2 (k + 1)) [- 1022 .. 1023] = Some (- 1022)"
    by (rule find_upto) (use assms in auto)
  then show ?thesis by (simp add: binade_def)
qed

lemma round_even_eq:
  assumes "of_int n - 1 / 2 < y" "y < of_int n + 1 / 2"
  shows "round_even y = n"
proof -
  consider "\<lfloor>y\<rfloor> = n" | "\<lfloor>y\<rfloor> = n - 1"
  proof (cases "of_int n \<le> y")
    case True
    with assms have "\<lfloor>y\<rfloor> = n" by (intro floor_unique) simp_all
    then show ?thesis by (rule that(1))
  next
    case False
    with assms have "\<lfloor>y\<rfloor> = n - 1" by (intro floor_unique) simp_all
    then show ?thesis by (rule that(2))
  qed
  then show ?thesis
  proof cases
    case 1
    then have "y - of_int n < 1 / 2" using assms by simp
    with 1 show ?thesis by (simp add: round_even_def Let_def)
  next
    case 2
    then have "1 / 2 < y - of_int (n - 1)" using assms by simp
    with 2 show ?thesis by (simp add: round_even_def Let_def)
  qed
qed

lemma round_even_bound:
  assumes "\<bar>y\<bar> < of_int m"
  shows "\<bar>round_even y\<bar> \<le> m"
proof -
  have "\<lfloor>y\<rfloor> \<le> round_even y" "round_even y \<le> \<lfloor>y\<rfloor> + 1"
    by (simp_all add: round_even_def Let_def)
  moreover have "\<lfloor>y\<rfloor> < m" using assms by (simp add: floor_less_iff abs_less_iff)
  moreover have "- m \<le> \<lfloor>y\<rfloor>" using assms by (simp add: le_floor_iff abs_less_iff)
  ultimately show ?thesis by linarith
qed

lemma rnd_binade:
  assumes bin: "binade x = k" and k: "k \<le> 1022" and ub: "\<bar>x\<bar> < pow2 (k + 1)"
    and r: "of_int n - 1 / 2 < x / pow2 (k - 52)" "x / pow2 (k - 52) < of_int n + 1 / 2"
  shows "rnd x = Fin (of_int n * pow2 (k - 52))"
proof -
  let ?u = "pow2 (k - 52)"
  have u: "0 < ?u" by (rule pow2_pos)
  have re: "round_even (x / ?u) = n" using r by (rule round_even_eq)
  have split: "pow2 (k + 1) = pow2 53 * ?u"
    using pow2_add [of 53 "k - 52"] by (simp add: add.commute)
  with ub u have "\<bar>x / ?u\<bar> < pow2 53"
    by (simp add: abs_divide pos_divide_less_eq)
  also have "pow2 53 = of_int (2 ^ 53)" by (simp add: pow2_def)
  finally have "\<bar>round_even (x / ?u)\<bar> \<le> 2 ^ 53" by (rule round_even_bound)
  with re have "\<bar>n\<bar> \<le> 2 ^ 53" by simp
  then have "\<bar>real_of_int n\<bar> \<le> pow2 53"
    by (simp add: pow2_def)
  then have "\<bar>of_int n * ?u\<bar> \<le> pow2 53 * ?u"
    using u by (simp add: abs_mult)
  also have "\<dots> = pow2 (k + 1)" by (simp only: split)
  also have "\<dots> \<le> pow2 1023" using k by (intro pow2_mono) simp
  also have "\<dots> < pow2 1024" by (simp add: pow2_powr)
  finally have "\<bar>of_int n * ?u\<bar> < pow2 1024" .
  then have "\<not> pow2 1024 \<le> of_int n * ?u" "\<not> of_int n * ?u \<le> - pow2 1024"
    by (simp_all add: abs_less_iff)
  then show ?thesis
    unfolding rnd_def Let_def bin re by (simp only: if_False)
qed

lemma rnd_eval:
  assumes "- 1022 \<le> k" "k \<le> 1022" "pow2 k \<le> \<bar>x\<bar>" "\<bar>x\<bar> < pow2 (k + 1)"
    and "of_int n - 1 / 2 < x / pow2 (k - 52)" "x / pow2 (k - 52) < of_int n + 1 / 2"
  shows "rnd x = Fin (of_int n * pow2 (k - 52))"
proof -
  have "binade x = k" using assms(1-4) by (intro binade_eq) simp_all
  then show ?thesis using assms(2,4,5,6) by (rule rnd_binade)
qed

lemma rnd_eval_small:
  assumes "\<bar>x\<bar> < pow2 (- 1021)"
    and "of_int n - 1 / 2 < x / pow2 (- 1074)" "x / pow2 (- 1074) < of_int n + 1 / 2"
  shows "rnd x = Fin (of_int n * pow2 (- 1074))"
proof -
  have "binade x = - 1022" using assms(1) by (rule binade_small)
  then show ?thesis using assms by (intro rnd_binade [where k = "- 1022", simplified]) simp_all
qed

lemma rnd_0: "rnd 0 = Fin 0"
  using rnd_eval_small [of 0 0] by (simp add: pow2_pos)

lemma rnd_1: "rnd 1 = Fin 1"
  using rnd_eval [of 0 1 "2 ^ 52"] by (simp add: pow2_def)

lemma rnd_2: "rnd 2 = Fin 2"
  using rnd_eval [of 1 2 "2 ^ 52"] by (simp add: pow2_def)


lemma rnd_4: "rnd 4 = Fin 4"
  using rnd_eval [of 2 4 "2 ^ 52"] by (simp add: pow2_def)

lemma rnd_16: "rnd 16 = Fin 16"
  using rnd_eval [of 4 16 "2 ^ 52"] by (simp add: pow2_def)

lemma rnd_m1: "rnd (- 1) = Fin (- 1)"
  using rnd_eval [of 0 "- 1" "- (2 ^ 52)"] by (simp add: pow2_def)

lemma rnd_m2: "rnd (- 2) = Fin (- 2)"
  using rnd_eval [of 1 "- 2" "- (2 ^ 52)"] by (simp add: pow2_def)

lemma rnd_m4: "rnd (- 4) = Fin (- 4)"
  using rnd_eval [of 2 "- 4" "- (2 ^ 52)"] by (simp add: pow2_def)









lemma ieee_add_Fin: "ieee_add (Fin x) (Fin y) = rnd (x + y)"
  by (simp add: ieee_add_def)

lemma ieee_mul_Fin: "ieee_mul (Fin x) (Fin y) = rnd (x * y)"
  by (simp add: ieee_mul_def)

lemma ieee_div_Fin: "y \<noteq> 0 \<Longrightarrow> ieee_div (Fin x) (Fin y) = rnd (x / y)"
  by (simp add: ieee_div_def)

lemma ieee_sel:
  "fl_add ieee = ieee_add" "fl_mul ieee = ieee_mul" "fl_div ieee = ieee_div"
  "fl_sqrt ieee = ieee_sqrt"
  by (simp_all add: ieee_def)







lemma ieee_sqrt_0: "ieee_sqrt (Fin 0) = Fin 0"
  by (simp add: rnd_0)



lemmas sums_eval = cosine_sums_def cosine_step_def ieee_sel ieee_add_Fin ieee_mul_Fin










section \<open>Session store: reset\<close>


lemma example_sid: "valid_sid (resolve_sid (example_request v)) = Some (ascii ''s1'')"
  by (simp add: example_request_def resolve_sid_def js_or_def truthy_def valid_sid_def ascii_def)

lemma example_session: "example_store (ascii ''s1'') =
   Some \<lparr>history = [\<lparr>role = User, content = ascii ''hello'', ts = 10\<rparr>,
                    \<lparr>role = Assistant, content = ascii ''Hello!'', ts = 11\<rparr>],
         createdAt = 10, lastSeen = 11\<rparr>"
  by (simp add: example_store_def)

lemma middleware_existing:
  assumes "valid_sid (resolve_sid req) = Some sid" and "ss sid = Some s"
  shows "sessionMiddleware e ss req = (sid, False, ss(sid \<mapsto> s\<lparr>lastSeen := now e\<rparr>))"
  using assms by (simp add: sessionMiddleware_def)

lemma reset_existing:
  assumes "valid_sid (resolve_sid req) = Some sid" and "ss sid = Some s"
  shows "reset e ss req =
    (\<lparr>reset_sessionId = sid, cleared = True\<rparr>,
     ss(sid \<mapsto> \<lparr>history = [], createdAt = createdAt s, lastSeen = now e\<rparr>))"
  by (cases s) (simp add: reset_def middleware_existing [where ss = ss, OF assms] update_session_def)

text \<open>
  C8, amended. For every existing session, a reset request that carries its id clears
  the turn history (the history length read afterwards is 0) and keeps the session id
  and createdAt; lastSeen is set to the time of the reset request, as the middleware
  does on every request. No other session changes.
\<close>

theorem reset_clears_history_touches_lastSeen:
  assumes "valid_sid (resolve_sid req) = Some sid" and "ss sid = Some s"
  shows "case reset e ss req of (r, ss') \<Rightarrow>
     reset_sessionId r = sid \<and> cleared r
     \<and> ss' sid = Some \<lparr>history = [], createdAt = createdAt s, lastSeen = now e\<rparr>
     \<and> (\<forall>other. other \<noteq> sid \<longrightarrow> ss' other = ss other)
     \<and> (case sessionInfo e' ss' req of (info, ss'') \<Rightarrow>
          info = Some \<lparr>info_sessionId = sid, historyLength = 0,
                       info_createdAt = createdAt s, info_lastSeen = now e'\<rparr>)"
proof -
  let ?s' = "\<lparr>history = [], createdAt = createdAt s, lastSeen = now e\<rparr>"
  have "(ss(sid \<mapsto> ?s')) sid = Some ?s'" by simp
  from middleware_existing [where ss = "ss(sid \<mapsto> ?s')", OF assms(1) this, of e']
  show ?thesis
    by (simp add: reset_existing [where ss = ss, OF assms] sessionInfo_def)
qed

theorem reset_clears_history_touches_lastSeen_witness:
  "valid_sid (resolve_sid (example_request JNull)) = Some (ascii ''s1'')
   \<and> map_option createdAt (example_store (ascii ''s1'')) = Some 10
   \<and> map_option (\<lambda>s. length (history s)) (example_store (ascii ''s1'')) = Some 2
   \<and> (case reset example_env example_store (example_request JNull) of (r, ss') \<Rightarrow>
        reset_sessionId r = ascii ''s1''
        \<and> ss' (ascii ''s1'') = Some \<lparr>history = [], createdAt = 10, lastSeen = 50\<rparr>)"
  using reset_clears_history_touches_lastSeen
      [where ss = example_store, OF example_sid [of JNull] example_session,
       of example_env example_env]
    example_sid [of JNull]
  by (simp add: example_session) (simp add: example_env_def split: prod.splits)

text \<open>
  C8, as stated, fails: lastSeen is not preserved. A session last seen at 11 and reset
  at 50 is last seen at 50.
\<close>

theorem reset_lastSeen_counterexample:
  "map_option lastSeen (example_store (ascii ''s1'')) = Some 11
   \<and> (case reset example_env example_store (example_request JNull) of (r, ss') \<Rightarrow>
        map_option lastSeen (ss' (ascii ''s1'')) = Some 50)"
  by (simp add: reset_existing [where ss = example_store, OF example_sid example_session]
        example_session)
     (simp add: example_env_def)

section \<open>The ask handler: validation and the ultra-short guard\<close>


lemma middleware_some:
  assumes "sessionMiddleware e ss req = (sid, minted, ss1)"
  shows "\<exists>s. ss1 sid = Some s"
  using assms
  by (auto simp: sessionMiddleware_def Let_def split: option.splits prod.splits)

lemma reply_with_store:
  assumes "ss sid = Some s"
  shows "reply_with e ss sid q m status reply =
     (Answer status reply sid m [],
      ss(sid \<mapsto> s\<lparr>history := history s @ [user_turn e q, assistant_turn e reply]\<rparr>))"
  using assms by (simp add: reply_with_def update_session_def push_def)

lemma catch_response_not_rejected: "catch_response err \<noteq> Rejected t"
  by (simp add: catch_response_def Let_def)

lemma rag_route_not_rejected: "fst (rag_route cfg e ss sid q m) \<noteq> Rejected t"
  by (simp add: rag_route_def reply_with_def Let_def catch_response_not_rejected
      split: sum.splits)

lemma answer_question_not_rejected: "fst (answer_question cfg e ss sid question) \<noteq> Rejected t"
  using rag_route_not_rejected
  by (simp add: answer_question_def reply_with_def Let_def split: option.splits)

lemma typeof_string_JStr: "typeof_string (JStr question)"
  by (simp add: typeof_string_def)

lemma ask_validated:
  assumes "validated_question e req = Some question"
    and "sessionMiddleware e ss req = (sid, minted, ss1)"
  shows "ask cfg e ss req =
     (case answer_question cfg e ss1 sid question of (r, cs, ss2) \<Rightarrow>
        \<lparr>response = r, calls = cs, store = ss2,
         cookie = (if minted then Some sid else None)\<rparr>)"
  using assms
  by (auto simp: ask_def validated_question_def typeof_string_JStr
      split: option.splits if_splits prod.splits)

lemma ask_rejected_iff:
  "response (ask cfg e ss req) = Rejected missing_question_text \<longleftrightarrow>
     (\<exists>v. selected_value req = Some v \<and> to_string (show_num e) v = Some [])"
proof -
  obtain sid minted ss1 where mw: "sessionMiddleware e ss req = (sid, minted, ss1)"
    by (cases "sessionMiddleware e ss req") auto
  show ?thesis
  proof (cases "selected_value req")
    case None
    then show ?thesis by (simp add: ask_def mw catch_response_not_rejected)
  next
    case (Some v)
    show ?thesis
    proof (cases "to_string (show_num e) v")
      case None
      with Some show ?thesis by (simp add: ask_def mw catch_response_not_rejected)
    next
      case q: (Some question)
      show ?thesis
      proof (cases "question = []")
        case True
        with Some q show ?thesis by (simp add: ask_def mw)
      next
        case False
        with Some q have "validated_question e req = Some question"
          by (simp add: validated_question_def)
        from ask_validated [OF this mw, of cfg]
        have "response (ask cfg e ss req) = fst (answer_question cfg e ss1 sid question)"
          by (simp split: prod.splits)
        with answer_question_not_rejected [of cfg e ss1 sid question missing_question_text]
          Some q False
        show ?thesis by simp
      qed
    qed
  qed
qed

lemma both_absent_rejected:
  assumes "both_absent_or_empty e req"
  shows "response (ask cfg e ss req) = Rejected missing_question_text"
proof -
  let ?q = "get_prop (body req) (ascii ''question'')"
  let ?m = "get_prop (body req) (ascii ''message'')"
  from assms have a: "absent_or_empty e ?q" "absent_or_empty e ?m"
    by (simp_all add: both_absent_or_empty_def)
  have empty: "to_string (show_num e) (JStr []) = Some []" by simp
  have "\<exists>v. selected_value req = Some v \<and> to_string (show_num e) v = Some []"
  proof (cases "nullish ?q")
    case qn: True
    show ?thesis
    proof (cases "nullish ?m")
      case True
      with qn empty show ?thesis by (simp add: selected_value_def js_coalesce_def)
    next
      case False
      with a(2) obtain x where "?m = Some x" "to_string (show_num e) x = Some []"
        by (auto simp: absent_or_empty_def split: option.splits)
      with qn False show ?thesis by (simp add: selected_value_def js_coalesce_def)
    qed
  next
    case False
    with a(1) obtain x where "?q = Some x" "to_string (show_num e) x = Some []"
      by (auto simp: absent_or_empty_def split: option.splits)
    with False show ?thesis by (simp add: selected_value_def js_coalesce_def)
  qed
  then show ?thesis by (simp add: ask_rejected_iff)
qed

text \<open>
  C9, amended. The value the validation reads is the field question unless it is absent
  or null, otherwise the field message unless it is absent or null, otherwise the empty
  string. The request is rejected with the 400 response exactly when that value's
  toString() gives the empty string; so it is when both fields are absent, null or
  coerce to the empty string. The test typeof question !== "string" never holds. A
  value that is not a string (a number, an array, an object) whose string is not empty
  is processed as a question with that string. When toString itself throws (an object
  with an entry named toString), the catch block answers.
\<close>

theorem ask_validation:
  "(response (ask cfg e ss req) = Rejected missing_question_text \<longleftrightarrow>
      (\<exists>v. selected_value req = Some v \<and> to_string (show_num e) v = Some []))
   \<and> selected_value req =
       (let question = get_prop (body req) (ascii ''question'');
            message = get_prop (body req) (ascii ''message'')
        in if \<not> nullish question then question
           else if \<not> nullish message then message else Some (JStr []))
   \<and> (both_absent_or_empty e req \<longrightarrow>
        response (ask cfg e ss req) = Rejected missing_question_text)
   \<and> (\<forall>question. typeof_string (JStr question))
   \<and> (\<forall>v question. selected_value req = Some v \<and> to_string (show_num e) v = Some question
         \<and> question \<noteq> [] \<longrightarrow>
         (case sessionMiddleware e ss req of (sid, minted, ss1) \<Rightarrow>
            case answer_question cfg e ss1 sid question of (r, cs, ss2) \<Rightarrow>
              ask cfg e ss req =
                \<lparr>response = r, calls = cs, store = ss2,
                 cookie = (if minted then Some sid else None)\<rparr>))
   \<and> (\<forall>v. selected_value req = Some v \<and> to_string (show_num e) v = None \<longrightarrow>
         response (ask cfg e ss req) = catch_response (type_error e))"
proof -
  have sel: "selected_value req =
       (let question = get_prop (body req) (ascii ''question'');
            message = get_prop (body req) (ascii ''message'')
        in if \<not> nullish question then question
           else if \<not> nullish message then message else Some (JStr []))"
    by (simp add: selected_value_def js_coalesce_def Let_def)
  have proc: "case sessionMiddleware e ss req of (sid, minted, ss1) \<Rightarrow>
            case answer_question cfg e ss1 sid question of (r, cs, ss2) \<Rightarrow>
              ask cfg e ss req =
                \<lparr>response = r, calls = cs, store = ss2,
                 cookie = (if minted then Some sid else None)\<rparr>"
    if "selected_value req = Some v" "to_string (show_num e) v = Some question" "question \<noteq> []"
    for v question
  proof -
    from that have vq: "validated_question e req = Some question"
      by (simp add: validated_question_def)
    obtain sid minted ss1 where mw: "sessionMiddleware e ss req = (sid, minted, ss1)"
      by (cases "sessionMiddleware e ss req") auto
    from ask_validated [OF vq mw, of cfg] mw show ?thesis
      by (simp split: prod.splits)
  qed
  have thrown: "response (ask cfg e ss req) = catch_response (type_error e)"
    if "selected_value req = Some v" "to_string (show_num e) v = None" for v
    using that by (simp add: ask_def split: prod.splits)
  have p1: "response (ask cfg e ss req) = Rejected missing_question_text \<longleftrightarrow>
      (\<exists>v. selected_value req = Some v \<and> to_string (show_num e) v = Some [])"
    by (rule ask_rejected_iff)
  have p3: "both_absent_or_empty e req \<longrightarrow>
      response (ask cfg e ss req) = Rejected missing_question_text"
    using both_absent_rejected by blast
  have p4: "\<forall>question. typeof_string (JStr question)"
    using typeof_string_JStr by blast
  have p5: "\<forall>v question. selected_value req = Some v \<and> to_string (show_num e) v = Some question
         \<and> question \<noteq> [] \<longrightarrow>
         (case sessionMiddleware e ss req of (sid, minted, ss1) \<Rightarrow>
            case answer_question cfg e ss1 sid question of (r, cs, ss2) \<Rightarrow>
              ask cfg e ss req =
                \<lparr>response = r, calls = cs, store = ss2,
                 cookie = (if minted then Some sid else None)\<rparr>)"
    by (intro allI impI, elim conjE) (rule proc)
  have p6: "\<forall>v. selected_value req = Some v \<and> to_string (show_num e) v = None \<longrightarrow>
         response (ask cfg e ss req) = catch_response (type_error e)"
    using thrown by blast
  show ?thesis
    by (intro conjI; fact)
qed



lemma selected_example: "v \<noteq> JNull \<Longrightarrow> selected_value (example_request v) = Some v"
  by (simp add: selected_value_def example_request_def get_prop_def js_coalesce_def nullish_def
      ascii_def)

lemma selected_example_with_message:
  "q \<noteq> JNull \<Longrightarrow> selected_value (example_request_with_message q m) = Some q"
  by (simp add: selected_value_def example_request_with_message_def get_prop_def
      js_coalesce_def nullish_def ascii_def)

theorem ask_validation_witness:
  "selected_value (example_request (JNum 12345)) = Some (JNum 12345)
   \<and> to_string (show_num example_env) (JNum 12345) = Some (ascii ''12345'')
   \<and> response (ask example_config example_env example_store (example_request (JNum 12345)))
       \<noteq> Rejected missing_question_text
   \<and> both_absent_or_empty example_env (example_request (JArr []))
   \<and> response (ask example_config example_env example_store (example_request (JArr [])))
       = Rejected missing_question_text
   \<and> response (ask example_config example_env example_store
         (example_request (JObj [(ascii ''toString'', JNum 1)])))
       = catch_response (type_error example_env)"
proof -
  have s1: "selected_value (example_request (JNum 12345)) = Some (JNum 12345)"
    by (rule selected_example) simp
  have t1: "to_string (show_num example_env) (JNum 12345) = Some (ascii ''12345'')"
    by (simp add: example_env_def)
  have ne: "ascii ''12345'' \<noteq> []" by (simp add: ascii_def)
  note t = ask_validation [of example_config example_env example_store]
  from t [of "example_request (JNum 12345)"] s1 t1 ne
  have a: "response (ask example_config example_env example_store (example_request (JNum 12345)))
       \<noteq> Rejected missing_question_text"
    by simp
  have b: "both_absent_or_empty example_env (example_request (JArr []))"
    by (simp add: both_absent_or_empty_def absent_or_empty_def example_request_def get_prop_def
        nullish_def ascii_def)
  with t [of "example_request (JArr [])"]
  have c: "response (ask example_config example_env example_store (example_request (JArr [])))
       = Rejected missing_question_text"
    by blast
  have s3: "selected_value (example_request (JObj [(ascii ''toString'', JNum 1)])) =
      Some (JObj [(ascii ''toString'', JNum 1)])"
    by (rule selected_example) simp
  have t3: "to_string (show_num example_env) (JObj [(ascii ''toString'', JNum 1)]) = None"
    by simp
  from t [of "example_request (JObj [(ascii ''toString'', JNum 1)])"] s3 t3
  have d: "response (ask example_config example_env example_store
         (example_request (JObj [(ascii ''toString'', JNum 1)])))
       = catch_response (type_error example_env)"
    by blast
  from s1 t1 a b c d show ?thesis by (intro conjI)
qed

text \<open>
  C9, as stated, fails: with question "" and message "hello" the request is rejected
  with the 400 response, although message is present and does not coerce to the empty
  string.
\<close>

theorem ask_validation_counterexample:
  "response (ask example_config example_env example_store
      (example_request_with_message (JStr []) (JStr (ascii ''hello''))))
     = Rejected missing_question_text
   \<and> get_prop (body (example_request_with_message (JStr []) (JStr (ascii ''hello''))))
        (ascii ''message'') = Some (JStr (ascii ''hello''))
   \<and> \<not> both_absent_or_empty example_env
        (example_request_with_message (JStr []) (JStr (ascii ''hello'')))"
proof -
  let ?req = "example_request_with_message (JStr []) (JStr (ascii ''hello''))"
  have "selected_value ?req = Some (JStr [])"
    by (rule selected_example_with_message) simp
  then have r: "response (ask example_config example_env example_store ?req)
     = Rejected missing_question_text"
    by (simp add: ask_rejected_iff)
  have m: "get_prop (body ?req) (ascii ''message'') = Some (JStr (ascii ''hello''))"
    by (simp add: example_request_with_message_def get_prop_def ascii_def)
  have "\<not> absent_or_empty example_env (Some (JStr (ascii ''hello'')))"
    by (simp add: absent_or_empty_def nullish_def ascii_def)
  with m have n: "\<not> both_absent_or_empty example_env ?req"
    by (simp add: both_absent_or_empty_def)
  from r m n show ?thesis by (intro conjI)
qed

lemma pick_in_range:
  assumes "0 \<le> r" "r < 1" "arr \<noteq> []"
  shows "pick r arr \<in> set arr"
proof -
  let ?n = "real (length arr)"
  have n: "0 < ?n" using assms(3) by simp
  have "r * ?n < ?n" using assms(2) n by simp
  then have "\<lfloor>r * ?n\<rfloor> < int (length arr)" by linarith
  moreover have "0 \<le> \<lfloor>r * ?n\<rfloor>" using assms(1) n by simp
  ultimately have "nat \<lfloor>r * ?n\<rfloor> < length arr" by linarith
  then show ?thesis by (simp add: pick_def)
qed

lemma banks_nonempty: "bank_en h k \<noteq> [] \<and> bank_hi h k \<noteq> []"
  by (cases k) simp_all

lemma answer_question_short:
  assumes "length (lettersOnly (trim question)) \<le> 3" and "ss sid = Some s"
  shows "answer_question cfg e ss sid question =
     (let q = trim question; m = detectResponseMode (lower_ext e) q;
          reply = makeSmallTalkReply e Hello m
      in (Answer 200 reply sid m [], [],
          ss(sid \<mapsto> s\<lparr>history := history s @ [user_turn e q, assistant_turn e reply]\<rparr>)))"
  using assms by (simp add: answer_question_def Let_def reply_with_store)

text \<open>
  C7, amended. For every request that passes validation (its question string is not
  empty) and whose question, trimmed and stripped of everything but ASCII letters and
  digits, has length at most 3, the handler answers with status 200, the greeting reply
  makeSmallTalkReply("hello", mode) and no citations, makes no backend call, and
  appends the user turn and that reply to the session's history: whatever the patterns
  of smallTalkMatch and the index hold. With Math.random() in [0, 1) the reply is one of
  the greeting phrases of the mode.
\<close>

theorem ultra_short_guard:
  assumes "validated_question e req = Some question"
    and "length (lettersOnly (trim question)) \<le> 3"
  shows "let q = trim question; m = detectResponseMode (lower_ext e) q;
             reply = makeSmallTalkReply e Hello m
         in response (ask cfg e ss req) =
              Answer 200 reply (fst (sessionMiddleware e ss req)) m []
          \<and> calls (ask cfg e ss req) = []
          \<and> (case sessionMiddleware e ss req of (sid, minted, ss1) \<Rightarrow>
               \<exists>s. ss1 sid = Some s
                 \<and> store (ask cfg e ss req) =
                     ss1(sid \<mapsto> s\<lparr>history := history s @ [user_turn e q, assistant_turn e reply]\<rparr>))
          \<and> (0 \<le> math_random e \<and> math_random e < 1 \<longrightarrow>
               reply \<in> set ((if m = Hinglish then bank_hi else bank_en) (hour e) Hello))"
proof -
  obtain sid minted ss1 where mw: "sessionMiddleware e ss req = (sid, minted, ss1)"
    by (cases "sessionMiddleware e ss req") auto
  then obtain s where s: "ss1 sid = Some s" using middleware_some by blast
  define q where "q = trim question"
  define m where "m = detectResponseMode (lower_ext e) q"
  define reply where "reply = makeSmallTalkReply e Hello m"
  have aq: "answer_question cfg e ss1 sid question =
      (Answer 200 reply sid m [], [],
       ss1(sid \<mapsto> s\<lparr>history := history s @ [user_turn e q, assistant_turn e reply]\<rparr>))"
    using answer_question_short [OF assms(2), where ss = ss1, OF s, of cfg e]
    by (simp add: Let_def q_def m_def reply_def)
  have a: "ask cfg e ss req =
      \<lparr>response = Answer 200 reply sid m [], calls = [],
       store = ss1(sid \<mapsto> s\<lparr>history := history s @ [user_turn e q, assistant_turn e reply]\<rparr>),
       cookie = (if minted then Some sid else None)\<rparr>"
    using ask_validated [OF assms(1) mw, of cfg] by (simp add: aq)
  have r: "reply \<in> set ((if m = Hinglish then bank_hi else bank_en) (hour e) Hello)"
    if "0 \<le> math_random e \<and> math_random e < 1"
  proof -
    let ?bank = "(if m = Hinglish then bank_hi else bank_en) (hour e) Hello"
    have ne: "?bank \<noteq> []"
      using banks_nonempty [of "hour e" Hello]
      by (cases "m = Hinglish") (simp_all del: bank_en.simps bank_hi.simps)
    have "reply = pick (math_random e) ?bank"
      by (cases "m = Hinglish")
         (simp_all add: reply_def makeSmallTalkReply_def Let_def del: bank_en.simps bank_hi.simps)
    with pick_in_range [of "math_random e" ?bank] that ne show ?thesis
      by (simp del: bank_en.simps bank_hi.simps)
  qed
  show ?thesis
    using r s
    by (simp add: Let_def a mw q_def [symmetric] m_def [symmetric] reply_def [symmetric]
        del: bank_en.simps bank_hi.simps)
qed



lemmas rx_eval_defs = smallTalkMatch_def test_anchored_def test_anywhere_def
  hello_re_def morning_re_def afternoon_re_def evening_re_def ack_re_def thanks_re_def
  bye_re_def help_re_def lit_def rep_def ascii_def ci_eq_def ascii_upper_def
  word_boundary_def is_word_char_def trim_def is_space_def

lemma smallTalk_ok: "smallTalkMatch (ascii ''ok'') = Some Ack"
  by (simp add: rx_eval_defs)

lemma smallTalk_price: "smallTalkMatch (ascii ''what is your price'') = None"
  by (simp add: rx_eval_defs)

lemma middleware_example:
  "sessionMiddleware e example_store (example_request v) =
     (ascii ''s1'', False,
      example_store(ascii ''s1'' \<mapsto>
        \<lparr>history = [\<lparr>role = User, content = ascii ''hello'', ts = 10\<rparr>,
                    \<lparr>role = Assistant, content = ascii ''Hello!'', ts = 11\<rparr>],
         createdAt = 10, lastSeen = now e\<rparr>))"
  by (simp add: sessionMiddleware_def example_sid example_session)

lemma validated_example:
  "s \<noteq> [] \<Longrightarrow> validated_question e (example_request (JStr s)) = Some s"
  by (simp add: validated_question_def selected_example)

theorem ultra_short_guard_witness:
  "validated_question example_env (example_request (JStr (ascii ''hi!''))) = Some (ascii ''hi!'')
   \<and> length (lettersOnly (trim (ascii ''hi!''))) = 2
   \<and> response (ask example_config example_env example_store (example_request (JStr (ascii ''hi!''))))
      = Answer 200
          (makeSmallTalkReply example_env Hello
             (detectResponseMode (lower_ext example_env) (trim (ascii ''hi!''))))
          (ascii ''s1'') (detectResponseMode (lower_ext example_env) (trim (ascii ''hi!''))) []
   \<and> calls (ask example_config example_env example_store (example_request (JStr (ascii ''hi!'')))) = []
   \<and> smallTalkMatch (ascii ''ok'') = Some Ack
   \<and> response (ask example_config example_env example_store (example_request (JStr (ascii ''ok''))))
      = Answer 200
          (makeSmallTalkReply example_env Hello
             (detectResponseMode (lower_ext example_env) (trim (ascii ''ok''))))
          (ascii ''s1'') (detectResponseMode (lower_ext example_env) (trim (ascii ''ok''))) []"
proof -
  have v1: "validated_question example_env (example_request (JStr (ascii ''hi!''))) = Some (ascii ''hi!'')"
    by (rule validated_example) (simp add: ascii_def)
  have l1: "length (lettersOnly (trim (ascii ''hi!''))) = 2"
    by (simp add: lettersOnly_def trim_def ascii_def is_space_def is_word_char_def)
  have v2: "validated_question example_env (example_request (JStr (ascii ''ok''))) = Some (ascii ''ok'')"
    by (rule validated_example) (simp add: ascii_def)
  have l2: "length (lettersOnly (trim (ascii ''ok''))) = 2"
    by (simp add: lettersOnly_def trim_def ascii_def is_space_def is_word_char_def)
  from ultra_short_guard [OF v1, of example_config example_store] l1
  have a: "response (ask example_config example_env example_store (example_request (JStr (ascii ''hi!''))))
      = Answer 200
          (makeSmallTalkReply example_env Hello
             (detectResponseMode (lower_ext example_env) (trim (ascii ''hi!''))))
          (ascii ''s1'') (detectResponseMode (lower_ext example_env) (trim (ascii ''hi!''))) []"
    and b: "calls (ask example_config example_env example_store (example_request (JStr (ascii ''hi!'')))) = []"
    by (simp_all only: Let_def middleware_example fst_conv)
  from ultra_short_guard [OF v2, of example_config example_store] l2
  have c: "response (ask example_config example_env example_store (example_request (JStr (ascii ''ok''))))
      = Answer 200
          (makeSmallTalkReply example_env Hello
             (detectResponseMode (lower_ext example_env) (trim (ascii ''ok''))))
          (ascii ''s1'') (detectResponseMode (lower_ext example_env) (trim (ascii ''ok''))) []"
    by (simp_all only: Let_def middleware_example fst_conv)
  from v1 l1 a b smallTalk_ok c show ?thesis by (intro conjI)
qed

text \<open>
  C7, as stated, fails: the empty question has stripped length 0, and the handler
  rejects it with the 400 response before the guard is reached.
\<close>

theorem ultra_short_guard_counterexample:
  "length (lettersOnly (trim [])) \<le> 3
   \<and> response (ask example_config example_env example_store (example_request (JStr [])))
      = Rejected missing_question_text"
proof -
  have "selected_value (example_request (JStr [])) = Some (JStr [])"
    by (rule selected_example) simp
  then have "response (ask example_config example_env example_store (example_request (JStr [])))
      = Rejected missing_question_text"
    by (simp add: ask_rejected_iff)
  moreover have "length (lettersOnly (trim [])) \<le> 3"
    by (simp add: lettersOnly_def trim_def)
  ultimately show ?thesis by (intro conjI)
qed

section \<open>Retrieval, the score gate and backend failures (server.mjs, /api/ask)\<close>

lemma js_slice_take: "0 \<le> k \<Longrightarrow> js_slice xs 0 k = take (nat k) xs"
  by (cases "nat k \<le> length xs") (simp_all add: js_slice_def rel_index_def min_def)

lemma js_slice_sorted:
  assumes "sorted_wrt R xs"
  shows "sorted_wrt R (js_slice xs a b)"
  unfolding js_slice_def Let_def
  using assms by (intro sorted_wrt_take sorted_wrt_drop)

lemma js_less_le: "js_less a b \<Longrightarrow> js_le a b"
  by (cases a; cases b) (auto simp: js_le_def)

lemma js_le_total: "a \<noteq> NaN \<Longrightarrow> b \<noteq> NaN \<Longrightarrow> \<not> js_less a b \<Longrightarrow> js_le b a"
  by (simp add: js_le_def)

lemma js_le_trans: "js_le a b \<Longrightarrow> js_le b c \<Longrightarrow> js_le a c"
  by (cases a; cases b; cases c) (auto simp: js_le_def)

lemma set_insert_score: "set (insert_score x xs) = insert x (set xs)"
  by (induction xs) auto

lemma length_insert_score: "length (insert_score x xs) = Suc (length xs)"
  by (induction xs) auto

lemma set_sort_scores: "set (sort_scores xs) = set xs"
  by (induction xs) (simp_all add: sort_scores_def set_insert_score)

lemma length_sort_scores: "length (sort_scores xs) = length xs"
  by (induction xs) (simp_all add: sort_scores_def length_insert_score)

lemma sorted_insert_score:
  assumes "sorted_wrt (\<lambda>a b. js_le (snd b) (snd a)) xs" and "snd x \<noteq> NaN"
    and "NaN \<notin> snd ` set xs"
  shows "sorted_wrt (\<lambda>a b. js_le (snd b) (snd a)) (insert_score x xs)"
  using assms
proof (induction xs)
  case Nil
  show ?case by simp
next
  case (Cons y ys)
  show ?case
  proof (cases "js_less (snd x) (snd y)")
    case True
    then have "js_le (snd x) (snd y)" by (rule js_less_le)
    with True Cons show ?thesis by (auto simp: set_insert_score)
  next
    case False
    with Cons.prems have yx: "js_le (snd y) (snd x)" by (intro js_le_total) auto
    have "js_le (snd z) (snd x)" if "z \<in> set ys" for z
      using that Cons.prems(1) yx by (auto intro: js_le_trans)
    with False yx Cons.prems(1) show ?thesis by auto
  qed
qed

lemma sorted_sort_scores:
  assumes "\<not> has_nan xs"
  shows "sorted_wrt (\<lambda>a b. js_le (snd b) (snd a)) (sort_scores xs)"
  using assms
proof (induction xs)
  case Nil
  show ?case by (simp add: sort_scores_def)
next
  case (Cons x xs)
  then have "sorted_wrt (\<lambda>a b. js_le (snd b) (snd a)) (sort_scores xs)"
    by (simp add: has_nan_def)
  moreover have "snd x \<noteq> NaN" "NaN \<notin> snd ` set (sort_scores xs)"
    using Cons.prems by (auto simp: has_nan_def set_sort_scores)
  ultimately have "sorted_wrt (\<lambda>a b. js_le (snd b) (snd a)) (insert_score x (sort_scores xs))"
    by (rule sorted_insert_score)
  then show ?case by (simp add: sort_scores_def)
qed

lemma retrieve_numbers:
  assumes "\<not> has_nan (score_all e cfg qVec)"
  shows "retrieve e cfg qVec = js_slice (sort_scores (score_all e cfg qVec)) 0 (TOP_K cfg)"
  using assms by (simp add: retrieve_def Let_def)

lemma retrieve_sorted:
  assumes "\<not> has_nan (score_all e cfg qVec)"
  shows "sorted_wrt (\<lambda>a b. js_le (snd b) (snd a)) (retrieve e cfg qVec)"
  unfolding retrieve_numbers [OF assms]
  by (rule js_slice_sorted) (rule sorted_sort_scores [OF assms])

lemma retrieve_length:
  assumes "\<not> has_nan (score_all e cfg qVec)" and "0 \<le> TOP_K cfg"
  shows "length (retrieve e cfg qVec) \<le> nat (TOP_K cfg)"
  using assms(2) by (simp add: retrieve_numbers [OF assms(1)] js_slice_take)

lemma retrieve_subset:
  assumes "\<not> has_nan (score_all e cfg qVec)"
  shows "set (retrieve e cfg qVec) \<subseteq> set (score_all e cfg qVec)"
proof -
  have "set (js_slice xs a b) \<subseteq> set xs" for xs :: "(chunk \<times> double) list" and a b
    unfolding js_slice_def Let_def
    by (meson set_take_subset set_drop_subset subset_trans)
  from this [of "sort_scores (score_all e cfg qVec)" 0 "TOP_K cfg"]
  show ?thesis by (simp add: retrieve_numbers [OF assms] set_sort_scores)
qed

lemma retrieve_members:
  assumes "\<not> has_nan (score_all e cfg qVec)" and "(v, score) \<in> set (retrieve e cfg qVec)"
  shows "v \<in> set (VECTORS cfg) \<and> score = cosineSim (arith e) qVec (embedding v)"
  using retrieve_subset [OF assms(1)] assms(2) by (auto simp: score_all_def)

lemma answer_question_rag:
  assumes "3 < length (lettersOnly (trim question))" and "smallTalkMatch (trim question) = None"
  shows "answer_question cfg e ss sid question =
     rag_route cfg e ss sid (trim question) (detectResponseMode (lower_ext e) (trim question))"
  using assms by (simp add: answer_question_def Let_def)

lemma rag_route_gated:
  assumes "VECTORS cfg \<noteq> []" and "embed e (cleaned_query e q) = Inr embRes"
    and "gated (retrieve e cfg (query_vector embRes))" and "ss sid = Some s"
  shows "rag_route cfg e ss sid q m =
     (Answer 200 (no_context_text m) sid m [], [EmbedCall (cleaned_query e q)],
      ss(sid \<mapsto> s\<lparr>history := history s @
           [user_turn e q, assistant_turn e (no_context_text m)]\<rparr>))"
  using assms by (simp add: rag_route_def Let_def reply_with_store)

lemma rag_route_embed_fails:
  assumes "VECTORS cfg \<noteq> []" and "embed e (cleaned_query e q) = Inl err"
  shows "rag_route cfg e ss sid q m = (catch_response err, [EmbedCall (cleaned_query e q)], ss)"
  using assms by (simp add: rag_route_def Let_def)

lemma rag_route_generate_fails:
  assumes "VECTORS cfg \<noteq> []" and "embed e (cleaned_query e q) = Inr embRes"
    and "\<not> gated (retrieve e cfg (query_vector embRes))" and "generate e = Inl err"
    and "ss sid = Some s"
  shows "rag_route cfg e ss sid q m =
     (catch_response err, [EmbedCall (cleaned_query e q), GenerateCall],
      ss(sid \<mapsto> s\<lparr>history := history s @ [user_turn e q]\<rparr>))"
  using assms by (simp add: rag_route_def Let_def update_session_def push_def)

lemma ask_rag:
  assumes "validated_question e req = Some question"
    and "3 < length (lettersOnly (trim question))" and "smallTalkMatch (trim question) = None"
    and "sessionMiddleware e ss req = (sid, minted, ss1)"
  shows "ask cfg e ss req =
     (case rag_route cfg e ss1 sid (trim question)
             (detectResponseMode (lower_ext e) (trim question)) of
        (r, cs, ss2) \<Rightarrow>
          \<lparr>response = r, calls = cs, store = ss2,
           cookie = (if minted then Some sid else None)\<rparr>)"
  using ask_validated [OF assms(1,4), of cfg] answer_question_rag [OF assms(2,3)]
  by simp

lemma middleware_history:
  assumes "sessionMiddleware e ss req = (sid, minted, ss1)"
  shows "map_option history (ss1 sid) = Some (case ss sid of None \<Rightarrow> [] | Some s \<Rightarrow> history s)"
  using assms
  by (auto simp: sessionMiddleware_def Let_def split: option.splits prod.splits)

lemma ieee_sqrt_1: "ieee_sqrt (Fin 1) = Fin 1"
  by (simp add: rnd_1)

lemma ieee_sqrt_4: "ieee_sqrt (Fin 4) = Fin 2"
  by (simp add: rnd_2)

lemma ieee_sqrt_16: "ieee_sqrt (Fin 16) = Fin 4"
  by (simp add: rnd_4)

lemmas rnd_ints = rnd_0 rnd_1 rnd_2 rnd_4 rnd_16 rnd_m1 rnd_m2 rnd_m4

lemmas cosine_eval = cosineSim_def cosine_divisor_def Let_def falsy_def sums_eval ieee_div_Fin
  ieee_sqrt_0 ieee_sqrt_1 ieee_sqrt_4 ieee_sqrt_16 rnd_ints

lemma example_scores_high:
  "map snd (score_all example_env example_config [Fin 1, Fin 0]) = [Fin 0, Fin 1, Fin (- 1)]"
  by (simp add: score_all_def example_config_def example_env_def cosine_eval
      del: ieee_sqrt.simps)

lemma example_scores_low:
  "map snd (score_all example_env example_config [Fin 0, Fin (- 1)]) = [Fin (- 1), Fin 0, Fin 0]"
  by (simp add: score_all_def example_config_def example_env_def cosine_eval
      del: ieee_sqrt.simps)

lemma has_nan_map: "has_nan xs \<longleftrightarrow> NaN \<in> set (map snd xs)"
  by (simp add: has_nan_def)

lemma example_numbers_high:
  "\<not> has_nan (score_all example_env example_config [Fin 1, Fin 0])"
  by (simp only: has_nan_map example_scores_high) simp

lemma example_numbers_low:
  "\<not> has_nan (score_all example_env example_config [Fin 0, Fin (- 1)])"
  by (simp only: has_nan_map example_scores_low) simp

lemma retrieve_example_high:
  "map snd (retrieve example_env example_config [Fin 1, Fin 0]) = [Fin 1, Fin 0]"
proof -
  have "score_all example_env example_config [Fin 1, Fin 0] =
      zip (VECTORS example_config) [Fin 0, Fin 1, Fin (- 1)]"
    using example_scores_high by (simp add: score_all_def example_config_def)
  then have "retrieve example_env example_config [Fin 1, Fin 0] =
      js_slice (sort_scores (zip (VECTORS example_config) [Fin 0, Fin 1, Fin (- 1)])) 0
        (TOP_K example_config)"
    by (simp only: retrieve_numbers [OF example_numbers_high])
  then show ?thesis
    by (simp add: sort_scores_def example_config_def js_slice_def rel_index_def)
qed

lemma retrieve_example_low:
  "map snd (retrieve example_env example_config [Fin 0, Fin (- 1)]) = [Fin 0, Fin 0]"
proof -
  have "score_all example_env example_config [Fin 0, Fin (- 1)] =
      zip (VECTORS example_config) [Fin (- 1), Fin 0, Fin 0]"
    using example_scores_low by (simp add: score_all_def example_config_def)
  then have "retrieve example_env example_config [Fin 0, Fin (- 1)] =
      js_slice (sort_scores (zip (VECTORS example_config) [Fin (- 1), Fin 0, Fin 0])) 0
        (TOP_K example_config)"
    by (simp only: retrieve_numbers [OF example_numbers_low])
  then show ?thesis
    by (simp add: sort_scores_def example_config_def js_slice_def rel_index_def)
qed

lemma gated_iff:
  "gated scored \<longleftrightarrow> map snd scored = [] \<or> js_less (hd (map snd scored)) (Fin MIN_OK_SCORE)"
  by (cases scored) (simp_all add: gated_def)

lemma not_gated_example: "\<not> gated (retrieve example_env example_config [Fin 1, Fin 0])"
  by (simp add: gated_iff retrieve_example_high MIN_OK_SCORE_def)

lemma gated_example: "gated (retrieve example_env example_config [Fin 0, Fin (- 1)])"
  by (simp add: gated_iff retrieve_example_low MIN_OK_SCORE_def)

text \<open>
  C1. On the retrieval path (a validated question with more than three letters and
  digits, no small-talk match, a loaded index, and an embedding call that returns),
  where every score is a number (none is NaN), the scored list holds chunks of the index,
  each with its cosine similarity to the query vector, in order of non-increasing score,
  and for a count \<open>TOP_K\<close> (not negative) at most \<open>TOP_K\<close> of them. Whenever the scored
  list is empty or its first score is below \<open>MIN_OK_SCORE\<close>, the handler answers with
  status 200, the fixed message of the language mode and no citations; the only backend
  call is the query embedding, no generation call is made; and the user turn and that
  message are appended to the session's history. All this holds whatever the
  floating-point operations round to.
\<close>

theorem retrieval_top_k_and_gate:
  assumes vq: "validated_question e req = Some question"
    and long: "3 < length (lettersOnly (trim question))"
    and nost: "smallTalkMatch (trim question) = None"
    and vec: "VECTORS cfg \<noteq> []"
    and emb: "embed e (cleaned_query e (trim question)) = Inr embRes"
  shows "let q = trim question; m = detectResponseMode (lower_ext e) q;
             qVec = query_vector embRes; scored = retrieve e cfg qVec
         in (\<not> has_nan (score_all e cfg qVec) \<longrightarrow>
               (0 \<le> TOP_K cfg \<longrightarrow> length scored \<le> nat (TOP_K cfg))
               \<and> sorted_wrt (\<lambda>a b. js_le (snd b) (snd a)) scored
               \<and> (\<forall>(v, score)\<in>set scored.
                     v \<in> set (VECTORS cfg)
                     \<and> score = cosineSim (arith e) qVec (embedding v)))
          \<and> (scored = [] \<or> js_less (snd (hd scored)) (Fin MIN_OK_SCORE) \<longrightarrow>
               response (ask cfg e ss req) =
                 Answer 200 (no_context_text m) (fst (sessionMiddleware e ss req)) m []
               \<and> calls (ask cfg e ss req) = [EmbedCall (cleaned_query e q)]
               \<and> GenerateCall \<notin> set (calls (ask cfg e ss req))
               \<and> (case sessionMiddleware e ss req of (sid, minted, ss1) \<Rightarrow>
                    \<exists>s. ss1 sid = Some s
                      \<and> store (ask cfg e ss req) =
                          ss1(sid \<mapsto> s\<lparr>history := history s @
                             [user_turn e q, assistant_turn e (no_context_text m)]\<rparr>)))"
proof -
  obtain sid minted ss1 where mw: "sessionMiddleware e ss req = (sid, minted, ss1)"
    by (cases "sessionMiddleware e ss req") auto
  then obtain s where s: "ss1 sid = Some s" using middleware_some by blast
  define q where "q = trim question"
  define m where "m = detectResponseMode (lower_ext e) q"
  define qVec where "qVec = query_vector embRes"
  define scored where "scored = retrieve e cfg qVec"
  have num: "(0 \<le> TOP_K cfg \<longrightarrow> length scored \<le> nat (TOP_K cfg))
      \<and> sorted_wrt (\<lambda>a b. js_le (snd b) (snd a)) scored
      \<and> (\<forall>(v, score)\<in>set scored.
            v \<in> set (VECTORS cfg) \<and> score = cosineSim (arith e) qVec (embedding v))"
    if nn: "\<not> has_nan (score_all e cfg qVec)"
    unfolding scored_def
    using retrieve_length [OF nn] retrieve_sorted [OF nn] retrieve_members [OF nn]
    by blast
  have gate: "response (ask cfg e ss req) = Answer 200 (no_context_text m) sid m []
      \<and> calls (ask cfg e ss req) = [EmbedCall (cleaned_query e q)]
      \<and> GenerateCall \<notin> set (calls (ask cfg e ss req))
      \<and> store (ask cfg e ss req) =
          ss1(sid \<mapsto> s\<lparr>history := history s @
             [user_turn e q, assistant_turn e (no_context_text m)]\<rparr>)"
    if "scored = [] \<or> js_less (snd (hd scored)) (Fin MIN_OK_SCORE)"
  proof -
    from that have g: "gated (retrieve e cfg (query_vector embRes))"
      by (simp add: gated_def scored_def qVec_def)
    have "rag_route cfg e ss1 sid q m =
       (Answer 200 (no_context_text m) sid m [], [EmbedCall (cleaned_query e q)],
        ss1(sid \<mapsto> s\<lparr>history := history s @
             [user_turn e q, assistant_turn e (no_context_text m)]\<rparr>))"
      using vec emb g s unfolding q_def by (rule rag_route_gated)
    with ask_rag [OF vq long nost mw, of cfg] show ?thesis
      by (simp add: q_def m_def)
  qed
  show ?thesis
    using num gate s
    by (simp add: Let_def mw q_def [symmetric] m_def [symmetric] qVec_def [symmetric]
        scored_def [symmetric])
qed

lemma price_validated:
  "validated_question e (example_request (JStr (ascii ''what is your price''))) =
     Some (ascii ''what is your price'')"
  by (rule validated_example) (simp add: ascii_def)

lemma price_trim: "trim (ascii ''what is your price'') = ascii ''what is your price''"
  by (simp add: trim_def ascii_def is_space_def)

lemma price_long: "3 < length (lettersOnly (trim (ascii ''what is your price'')))"
  by (simp add: lettersOnly_def trim_def ascii_def is_space_def is_word_char_def)

lemma price_no_small_talk: "smallTalkMatch (trim (ascii ''what is your price'')) = None"
  by (simp only: price_trim smallTalk_price)

lemma example_vectors: "VECTORS example_config \<noteq> []"
  by (simp add: example_config_def)

lemma low_score_scores: "score_all low_score_env cfg qVec = score_all example_env cfg qVec"
  by (simp add: score_all_def low_score_env_def)

lemma low_score_sort: "sort_nan low_score_env = sort_nan example_env"
  by (simp add: low_score_env_def)

lemma low_score_retrieve: "retrieve low_score_env cfg qVec = retrieve example_env cfg qVec"
  by (simp only: retrieve_def low_score_scores low_score_sort)

theorem retrieval_top_k_and_gate_witness:
  "validated_question low_score_env (example_request (JStr (ascii ''what is your price''))) =
     Some (ascii ''what is your price'')
   \<and> 3 < length (lettersOnly (trim (ascii ''what is your price'')))
   \<and> smallTalkMatch (trim (ascii ''what is your price'')) = None
   \<and> VECTORS example_config \<noteq> []
   \<and> TOP_K example_config = 2
   \<and> map snd (score_all low_score_env example_config [Fin 0, Fin (- 1)]) =
       [Fin (- 1), Fin 0, Fin 0]
   \<and> map snd (retrieve low_score_env example_config [Fin 0, Fin (- 1)]) = [Fin 0, Fin 0]
   \<and> length (retrieve low_score_env example_config [Fin 0, Fin (- 1)]) \<le> 2
   \<and> sorted_wrt (\<lambda>a b. js_le (snd b) (snd a))
        (retrieve low_score_env example_config [Fin 0, Fin (- 1)])
   \<and> response (ask example_config low_score_env example_store
         (example_request (JStr (ascii ''what is your price'')))) =
        Answer 200
          (no_context_text
             (detectResponseMode (lower_ext low_score_env) (ascii ''what is your price'')))
          (ascii ''s1'')
          (detectResponseMode (lower_ext low_score_env) (ascii ''what is your price'')) []
   \<and> GenerateCall \<notin> set (calls (ask example_config low_score_env example_store
         (example_request (JStr (ascii ''what is your price'')))))"
proof -
  let ?req = "example_request (JStr (ascii ''what is your price''))"
  let ?res = "\<lparr>embedding_values = Some [Fin 0, Fin (- 1)], embeddings0_values = None\<rparr>"
  have emb: "embed low_score_env (cleaned_query low_score_env (trim (ascii ''what is your price'')))
      = Inr ?res"
    by (simp add: low_score_env_def)
  have qv: "query_vector ?res = [Fin 0, Fin (- 1)]"
    by (simp add: query_vector_def)
  have k: "TOP_K example_config = 2"
    by (simp add: example_config_def)
  have sc: "map snd (score_all low_score_env example_config [Fin 0, Fin (- 1)]) =
      [Fin (- 1), Fin 0, Fin 0]"
    by (simp only: low_score_scores example_scores_low)
  have nn: "\<not> has_nan (score_all low_score_env example_config [Fin 0, Fin (- 1)])"
    by (simp only: low_score_scores example_numbers_low not_False_eq_True)
  have low: "map snd (retrieve low_score_env example_config [Fin 0, Fin (- 1)]) = [Fin 0, Fin 0]"
    by (simp only: low_score_retrieve retrieve_example_low)
  have g: "retrieve low_score_env example_config [Fin 0, Fin (- 1)] = [] \<or>
      js_less (snd (hd (retrieve low_score_env example_config [Fin 0, Fin (- 1)])))
        (Fin MIN_OK_SCORE)"
    using gated_example by (simp add: gated_def low_score_retrieve)
  note t = retrieval_top_k_and_gate [OF price_validated price_long price_no_small_talk
      example_vectors emb, of example_store, unfolded Let_def qv price_trim middleware_example
      fst_conv]
  from t nn k have len: "length (retrieve low_score_env example_config [Fin 0, Fin (- 1)]) \<le> 2"
    by simp
  from t nn have srt: "sorted_wrt (\<lambda>a b. js_le (snd b) (snd a))
        (retrieve low_score_env example_config [Fin 0, Fin (- 1)])"
    by blast
  from t g have r: "response (ask example_config low_score_env example_store ?req) =
        Answer 200
          (no_context_text
             (detectResponseMode (lower_ext low_score_env) (ascii ''what is your price'')))
          (ascii ''s1'')
          (detectResponseMode (lower_ext low_score_env) (ascii ''what is your price'')) []"
    and c: "GenerateCall \<notin> set (calls (ask example_config low_score_env example_store ?req))"
    by blast+
  from price_validated [of low_score_env] price_long price_no_small_talk example_vectors k
    sc low len srt r c
  show ?thesis by (intro conjI)
qed

lemma catch_response_carries:
  assumes "err_status err = Some n" "n \<noteq> 0" "err_message err = Some msg" "msg \<noteq> []"
  shows "catch_response err = Failed n msg (first_text [err_statusText err]) (first_text [err_name err])"
  using assms by (simp add: catch_response_def Let_def)

text \<open>
  C3, amended. On the retrieval path, when the query embedding call throws, the handler
  answers from the catch block, the embedding call is the only backend call (no retry),
  and the session's history is as it was before the request. When the embedding call
  returns, the result is not gated and the generation call throws, the handler answers
  from the catch block, each backend is called once (no retry), and the session's
  history is the history before the request followed by the user turn of the failed
  request: the user turn is appended before the generation call and is not taken back.
  The catch block's response carries the error's status and message when the status is
  not 0 and the message is not empty.
\<close>

theorem backend_failure_surfaced:
  assumes vq: "validated_question e req = Some question"
    and long: "3 < length (lettersOnly (trim question))"
    and nost: "smallTalkMatch (trim question) = None"
    and vec: "VECTORS cfg \<noteq> []"
  shows "let q = trim question; cq = cleaned_query e q in
     (\<forall>err. embed e cq = Inl err \<longrightarrow>
        response (ask cfg e ss req) = catch_response err
        \<and> calls (ask cfg e ss req) = [EmbedCall cq]
        \<and> (case sessionMiddleware e ss req of (sid, minted, ss1) \<Rightarrow>
             store (ask cfg e ss req) = ss1
             \<and> map_option history (ss1 sid) =
                 Some (case ss sid of None \<Rightarrow> [] | Some s \<Rightarrow> history s)))
     \<and> (\<forall>embRes err. embed e cq = Inr embRes
           \<and> \<not> gated (retrieve e cfg (query_vector embRes))
           \<and> generate e = Inl err \<longrightarrow>
        response (ask cfg e ss req) = catch_response err
        \<and> calls (ask cfg e ss req) = [EmbedCall cq, GenerateCall]
        \<and> (case sessionMiddleware e ss req of (sid, minted, ss1) \<Rightarrow>
             \<exists>s. ss1 sid = Some s
               \<and> store (ask cfg e ss req) =
                   ss1(sid \<mapsto> s\<lparr>history := history s @ [user_turn e q]\<rparr>)))
     \<and> (\<forall>err n msg. err_status err = Some n \<and> n \<noteq> 0 \<and> err_message err = Some msg
           \<and> msg \<noteq> [] \<longrightarrow>
        catch_response err =
          Failed n msg (first_text [err_statusText err]) (first_text [err_name err]))"
proof -
  obtain sid minted ss1 where mw: "sessionMiddleware e ss req = (sid, minted, ss1)"
    by (cases "sessionMiddleware e ss req") auto
  then obtain s where s: "ss1 sid = Some s" using middleware_some by blast
  define q where "q = trim question"
  define cq where "cq = cleaned_query e q"
  define m where "m = detectResponseMode (lower_ext e) q"
  have p1: "response (ask cfg e ss req) = catch_response err
        \<and> calls (ask cfg e ss req) = [EmbedCall cq]
        \<and> store (ask cfg e ss req) = ss1
        \<and> map_option history (ss1 sid) =
            Some (case ss sid of None \<Rightarrow> [] | Some s \<Rightarrow> history s)"
    if "embed e cq = Inl err" for err
  proof -
    have "rag_route cfg e ss1 sid q m = (catch_response err, [EmbedCall (cleaned_query e q)], ss1)"
      using vec that unfolding cq_def by (rule rag_route_embed_fails)
    with ask_rag [OF vq long nost mw, of cfg] middleware_history [OF mw] show ?thesis
      by (simp add: q_def m_def cq_def)
  qed
  have p2: "response (ask cfg e ss req) = catch_response err
        \<and> calls (ask cfg e ss req) = [EmbedCall cq, GenerateCall]
        \<and> store (ask cfg e ss req) =
            ss1(sid \<mapsto> s\<lparr>history := history s @ [user_turn e q]\<rparr>)"
    if "embed e cq = Inr embRes" "\<not> gated (retrieve e cfg (query_vector embRes))"
      "generate e = Inl err" for embRes err
  proof -
    have "rag_route cfg e ss1 sid q m =
       (catch_response err, [EmbedCall (cleaned_query e q), GenerateCall],
        ss1(sid \<mapsto> s\<lparr>history := history s @ [user_turn e q]\<rparr>))"
      using vec that(1) [unfolded cq_def] that(2,3) s by (rule rag_route_generate_fails)
    with ask_rag [OF vq long nost mw, of cfg] show ?thesis
      by (simp add: q_def m_def cq_def)
  qed
  have p3: "catch_response err =
          Failed n msg (first_text [err_statusText err]) (first_text [err_name err])"
    if "err_status err = Some n" "n \<noteq> 0" "err_message err = Some msg" "msg \<noteq> []"
    for err n msg
    using that by (rule catch_response_carries)
  show ?thesis
    using p1 p2 p3 s
    by (simp add: Let_def mw q_def [symmetric] cq_def [symmetric])
qed

lemma failing_embedding_embed:
  "embed failing_embedding_env q = Inl example_error"
  by (simp add: failing_embedding_env_def)

lemma failing_generation_embed:
  "embed failing_generation_env q =
     Inr \<lparr>embedding_values = Some [Fin 1, Fin 0], embeddings0_values = None\<rparr>"
  by (simp add: failing_generation_env_def example_env_def)

lemma failing_generation_generate: "generate failing_generation_env = Inl example_error"
  by (simp add: failing_generation_env_def)

lemma failing_generation_parts:
  "arith failing_generation_env = arith example_env"
  "sort_nan failing_generation_env = sort_nan example_env"
  by (simp_all add: failing_generation_env_def)

lemma failing_generation_retrieve:
  "retrieve failing_generation_env cfg qVec = retrieve example_env cfg qVec"
  by (simp only: retrieve_def score_all_def failing_generation_parts)

lemma failing_generation_not_gated:
  "\<not> gated (retrieve failing_generation_env example_config
       (query_vector \<lparr>embedding_values = Some [Fin 1, Fin 0], embeddings0_values = None\<rparr>))"
  using not_gated_example by (simp add: failing_generation_retrieve query_vector_def)

lemma example_error_response:
  "catch_response example_error =
     Failed 429 (ascii ''quota exceeded'') (Some (ascii ''Too Many Requests''))
       (Some (ascii ''Error''))"
  by (simp add: catch_response_def example_error_def ascii_def)

lemma example_history:
  "map_option history (example_store (ascii ''s1'')) =
     Some [\<lparr>role = User, content = ascii ''hello'', ts = 10\<rparr>,
           \<lparr>role = Assistant, content = ascii ''Hello!'', ts = 11\<rparr>]"
  by (simp add: example_store_def)

theorem backend_failure_surfaced_witness:
  "validated_question failing_embedding_env
      (example_request (JStr (ascii ''what is your price''))) = Some (ascii ''what is your price'')
   \<and> validated_question failing_generation_env
      (example_request (JStr (ascii ''what is your price''))) = Some (ascii ''what is your price'')
   \<and> 3 < length (lettersOnly (trim (ascii ''what is your price'')))
   \<and> smallTalkMatch (trim (ascii ''what is your price'')) = None
   \<and> VECTORS example_config \<noteq> []
   \<and> response (ask example_config failing_embedding_env example_store
         (example_request (JStr (ascii ''what is your price'')))) =
       Failed 429 (ascii ''quota exceeded'') (Some (ascii ''Too Many Requests''))
         (Some (ascii ''Error''))
   \<and> calls (ask example_config failing_embedding_env example_store
         (example_request (JStr (ascii ''what is your price'')))) =
       [EmbedCall (cleaned_query failing_embedding_env (ascii ''what is your price''))]
   \<and> map_option history
        (store (ask example_config failing_embedding_env example_store
           (example_request (JStr (ascii ''what is your price'')))) (ascii ''s1'')) =
       Some [\<lparr>role = User, content = ascii ''hello'', ts = 10\<rparr>,
             \<lparr>role = Assistant, content = ascii ''Hello!'', ts = 11\<rparr>]
   \<and> response (ask example_config failing_generation_env example_store
         (example_request (JStr (ascii ''what is your price'')))) =
       Failed 429 (ascii ''quota exceeded'') (Some (ascii ''Too Many Requests''))
         (Some (ascii ''Error''))
   \<and> calls (ask example_config failing_generation_env example_store
         (example_request (JStr (ascii ''what is your price'')))) =
       [EmbedCall (cleaned_query failing_generation_env (ascii ''what is your price'')),
        GenerateCall]
   \<and> map_option history
        (store (ask example_config failing_generation_env example_store
           (example_request (JStr (ascii ''what is your price'')))) (ascii ''s1'')) =
       Some [\<lparr>role = User, content = ascii ''hello'', ts = 10\<rparr>,
             \<lparr>role = Assistant, content = ascii ''Hello!'', ts = 11\<rparr>,
             user_turn failing_generation_env (ascii ''what is your price'')]"
proof -
  let ?req = "example_request (JStr (ascii ''what is your price''))"
  let ?q = "ascii ''what is your price''"
  note te = backend_failure_surfaced [OF price_validated price_long price_no_small_talk
      example_vectors, of failing_embedding_env example_store,
      unfolded Let_def price_trim middleware_example fst_conv prod.case]
  note tg = backend_failure_surfaced [OF price_validated price_long price_no_small_talk
      example_vectors, of failing_generation_env example_store,
      unfolded Let_def price_trim middleware_example fst_conv prod.case]
  from te failing_embedding_embed [of "cleaned_query failing_embedding_env ?q"]
  have e: "response (ask example_config failing_embedding_env example_store ?req) =
        catch_response example_error
      \<and> calls (ask example_config failing_embedding_env example_store ?req) =
        [EmbedCall (cleaned_query failing_embedding_env ?q)]
      \<and> store (ask example_config failing_embedding_env example_store ?req) =
          example_store(ascii ''s1'' \<mapsto>
            \<lparr>history = [\<lparr>role = User, content = ascii ''hello'', ts = 10\<rparr>,
                        \<lparr>role = Assistant, content = ascii ''Hello!'', ts = 11\<rparr>],
             createdAt = 10, lastSeen = now failing_embedding_env\<rparr>)"
    by blast
  from tg failing_generation_embed [of "cleaned_query failing_generation_env ?q"]
    failing_generation_not_gated failing_generation_generate
  have g: "response (ask example_config failing_generation_env example_store ?req) =
        catch_response example_error
      \<and> calls (ask example_config failing_generation_env example_store ?req) =
        [EmbedCall (cleaned_query failing_generation_env ?q), GenerateCall]
      \<and> (\<exists>s. (example_store(ascii ''s1'' \<mapsto>
            \<lparr>history = [\<lparr>role = User, content = ascii ''hello'', ts = 10\<rparr>,
                        \<lparr>role = Assistant, content = ascii ''Hello!'', ts = 11\<rparr>],
             createdAt = 10, lastSeen = now failing_generation_env\<rparr>)) (ascii ''s1'') = Some s
          \<and> store (ask example_config failing_generation_env example_store ?req) =
            (example_store(ascii ''s1'' \<mapsto>
            \<lparr>history = [\<lparr>role = User, content = ascii ''hello'', ts = 10\<rparr>,
                        \<lparr>role = Assistant, content = ascii ''Hello!'', ts = 11\<rparr>],
             createdAt = 10, lastSeen = now failing_generation_env\<rparr>))
             (ascii ''s1'' \<mapsto> s\<lparr>history := history s @ [user_turn failing_generation_env ?q]\<rparr>))"
    by blast
  from e have e3: "map_option history
        (store (ask example_config failing_embedding_env example_store ?req) (ascii ''s1'')) =
       Some [\<lparr>role = User, content = ascii ''hello'', ts = 10\<rparr>,
             \<lparr>role = Assistant, content = ascii ''Hello!'', ts = 11\<rparr>]"
    by simp
  from g have g3: "map_option history
        (store (ask example_config failing_generation_env example_store ?req) (ascii ''s1'')) =
       Some [\<lparr>role = User, content = ascii ''hello'', ts = 10\<rparr>,
             \<lparr>role = Assistant, content = ascii ''Hello!'', ts = 11\<rparr>,
             user_turn failing_generation_env ?q]"
    by auto
  from e have e1: "response (ask example_config failing_embedding_env example_store ?req) =
       Failed 429 (ascii ''quota exceeded'') (Some (ascii ''Too Many Requests''))
         (Some (ascii ''Error''))"
    and e2: "calls (ask example_config failing_embedding_env example_store ?req) =
        [EmbedCall (cleaned_query failing_embedding_env ?q)]"
    by (simp_all only: example_error_response)
  from g have g1: "response (ask example_config failing_generation_env example_store ?req) =
       Failed 429 (ascii ''quota exceeded'') (Some (ascii ''Too Many Requests''))
         (Some (ascii ''Error''))"
    and g2: "calls (ask example_config failing_generation_env example_store ?req) =
        [EmbedCall (cleaned_query failing_generation_env ?q), GenerateCall]"
    by (simp_all only: example_error_response)
  from price_validated [of failing_embedding_env] price_validated [of failing_generation_env]
    price_long price_no_small_talk example_vectors e1 e2 e3 g1 g2 g3
  show ?thesis by (intro conjI)
qed

text \<open>
  C3, as stated, fails: when the generation call throws with status 429, the response
  carries that status and message, and the session's history, two turns before the
  request, holds three turns after it, the last one the user turn of the failed request.
\<close>

theorem backend_failure_history_counterexample:
  "generate failing_generation_env = Inl example_error
   \<and> response (ask example_config failing_generation_env example_store
         (example_request (JStr (ascii ''what is your price'')))) =
       Failed 429 (ascii ''quota exceeded'') (Some (ascii ''Too Many Requests''))
         (Some (ascii ''Error''))
   \<and> map_option history (example_store (ascii ''s1'')) =
       Some [\<lparr>role = User, content = ascii ''hello'', ts = 10\<rparr>,
             \<lparr>role = Assistant, content = ascii ''Hello!'', ts = 11\<rparr>]
   \<and> map_option history
        (store (ask example_config failing_generation_env example_store
           (example_request (JStr (ascii ''what is your price'')))) (ascii ''s1'')) =
       Some [\<lparr>role = User, content = ascii ''hello'', ts = 10\<rparr>,
             \<lparr>role = Assistant, content = ascii ''Hello!'', ts = 11\<rparr>,
             \<lparr>role = User, content = ascii ''what is your price'', ts = 51\<rparr>]"
proof -
  let ?req = "example_request (JStr (ascii ''what is your price''))"
  let ?q = "ascii ''what is your price''"
  let ?s = "\<lparr>history = [\<lparr>role = User, content = ascii ''hello'', ts = 10\<rparr>,
                        \<lparr>role = Assistant, content = ascii ''Hello!'', ts = 11\<rparr>],
             createdAt = 10, lastSeen = now failing_generation_env\<rparr>"
  let ?ss1 = "example_store(ascii ''s1'' \<mapsto> ?s)"
  have s: "?ss1 (ascii ''s1'') = Some ?s" by simp
  have rr: "rag_route example_config failing_generation_env ?ss1 (ascii ''s1'') ?q m =
     (catch_response example_error,
      [EmbedCall (cleaned_query failing_generation_env ?q), GenerateCall],
      ?ss1(ascii ''s1'' \<mapsto> ?s\<lparr>history := history ?s @ [user_turn failing_generation_env ?q]\<rparr>))"
    for m
    using example_vectors failing_generation_embed failing_generation_not_gated
      failing_generation_generate s
    by (rule rag_route_generate_fails)
  have a: "ask example_config failing_generation_env example_store ?req =
      \<lparr>response = catch_response example_error,
       calls = [EmbedCall (cleaned_query failing_generation_env ?q), GenerateCall],
       store = ?ss1(ascii ''s1'' \<mapsto>
          ?s\<lparr>history := history ?s @ [user_turn failing_generation_env ?q]\<rparr>),
       cookie = None\<rparr>"
    using ask_rag [OF price_validated price_long price_no_small_talk middleware_example,
        where cfg = example_config and e = failing_generation_env]
    by (simp only: price_trim rr prod.case if_False)
  have r: "response (ask example_config failing_generation_env example_store ?req) =
       Failed 429 (ascii ''quota exceeded'') (Some (ascii ''Too Many Requests''))
         (Some (ascii ''Error''))"
    by (simp only: a example_error_response outcome.simps)
  have u: "user_turn failing_generation_env ?q =
      \<lparr>role = User, content = ascii ''what is your price'', ts = 51\<rparr>"
    by (simp add: user_turn_def failing_generation_env_def example_env_def)
  have h: "map_option history
        (store (ask example_config failing_generation_env example_store ?req) (ascii ''s1'')) =
       Some [\<lparr>role = User, content = ascii ''hello'', ts = 10\<rparr>,
             \<lparr>role = Assistant, content = ascii ''Hello!'', ts = 11\<rparr>,
             \<lparr>role = User, content = ascii ''what is your price'', ts = 51\<rparr>]"
    unfolding a u [symmetric] by simp
  from failing_generation_generate r example_history h show ?thesis by (intro conjI)
qed

end
